theory Spec2Isabelle
  imports Main "HOL-Library.Sublist"
begin

section \<open>The CAAS unit provisioner worker (worker/caasunitprovisioner/worker.go)\<close>

text \<open>
  The provisioner is one goroutine that talks to its collaborators through interface
  values. The embedding is sequential: every collaborator is a function on an explicit
  world \<open>'w\<close> that returns its result together with the new world, and the provisioner
  record carries that world along. Every call the loop makes on a collaborator is also
  appended to a log of calls, so that the order and the number of calls can be stated.
  What the Go scheduler decides (which case of a \<open>select\<close> fires) is an input:
  the outer \<open>select\<close> of the loop consumes a list of events, the inner one asks the
  runtime record.
\<close>

subsection \<open>Errors (github.com/juju/errors)\<close>

datatype error =
    NotFound string
  | NotValid string
  | ErrorNew string
  | ErrDying
  | Traced error

text \<open>\<open>errors.Trace\<close> wraps an error and keeps its cause; \<open>errors.Cause\<close> unwraps.\<close>

definition Trace :: "error \<Rightarrow> error" where
  "Trace e = Traced e"

fun Cause :: "error \<Rightarrow> error" where
  "Cause (Traced e) = Cause e"
| "Cause e = e"

definition IsNotFound :: "error \<Rightarrow> bool" where
  "IsNotFound e = (case Cause e of NotFound m \<Rightarrow> True | _ \<Rightarrow> False)"

subsection \<open>Data\<close>

text \<open>\<open>core/life\<close>: the life of an application that exists.\<close>

datatype life = Alive | Dying | Dead

text \<open>
  Modelled from the spec: the application configuration (\<open>core/application\<close> is not
  part of the sources at hand). A mapping from option name to value, read with a typed
  accessor that takes a default.
\<close>

type_synonym ConfigAttributes = "string \<rightharpoonup> bool"

definition GetBool :: "ConfigAttributes \<Rightarrow> string \<Rightarrow> bool \<Rightarrow> bool" where
  "GetBool cfg attrName defaultValue = (case cfg attrName of Some v \<Rightarrow> v | None \<Rightarrow> defaultValue)"

text \<open>The handle of the watcher returned by \<open>WatchApplications\<close>.\<close>

datatype StringsWatcher = StringsWatcher nat

text \<open>
  Modelled from the spec: the application worker (\<open>application_worker.go\<close> is not
  part of the sources at hand). The root only uses its name, its removal channel and its
  own catacomb; a channel is identified by the number \<open>make\<close> gave it.
\<close>

record applicationWorker =
  application :: string
  appRemoved :: nat
  jujuManagedUnits :: bool

text \<open>What \<open>catacomb.Add\<close> and \<open>worker.Stop\<close> take: a \<open>worker.Worker\<close>.\<close>

datatype worker = WatcherWorker StringsWatcher | AppWorker applicationWorker

text \<open>The calls the provisioner makes on the outside, in the order it makes them.\<close>

datatype call =
    WatchApplications_call
  | Changes_recv "string list"
  | Life_call string
  | UnexposeService_call string
  | DeleteService_call string
  | ApplicationConfig_call string
  | newApplicationWorker_call string nat bool
  | appRemoved_send nat
  | appRemoved_close nat
  | Stop_call worker
  | Errorf_call string error
  | Add_call worker

subsection \<open>Collaborators\<close>

record 'w ApplicationGetter =
  WatchApplications :: "'w \<Rightarrow> (error + StringsWatcher) \<times> 'w"
  ApplicationConfig :: "string \<Rightarrow> 'w \<Rightarrow> (error + ConfigAttributes) \<times> 'w"

record 'w ContainerBroker =
  UnexposeService :: "string \<Rightarrow> 'w \<Rightarrow> error option \<times> 'w"
  DeleteService :: "string \<Rightarrow> 'w \<Rightarrow> error option \<times> 'w"

record 'w LifeGetter =
  Life :: "string \<Rightarrow> 'w \<Rightarrow> (error + life) \<times> 'w"

text \<open>
  \<open>Config\<close>: eight interface values, each of which may be nil (\<open>None\<close>). The five that
  the root only hands on to the application workers are opaque.
\<close>

record ('w, 'au, 'sb, 'ps, 'ug, 'uu) Config =
  ApplicationGetter :: "'w ApplicationGetter option"
  ApplicationUpdater :: "'au option"
  ServiceBroker :: "'sb option"
  ContainerBroker :: "'w ContainerBroker option"
  PodSpecGetter :: "'ps option"
  LifeGetter :: "'w LifeGetter option"
  UnitGetter :: "'ug option"
  UnitUpdater :: "'uu option"

text \<open>Which case of the \<open>select\<close> of the removal handshake fired.\<close>

datatype removal_select = Sent | WorkerDying

text \<open>
  What the loop uses and the sources at hand do not hold: the constant
  \<open>caas.JujuManagedUnits\<close>, whether starting a new application worker fails, whether
  \<open>catacomb.Add\<close> fails, the outcome of the handshake's \<open>select\<close>, and the result of
  \<open>worker.Stop\<close>.
\<close>

record 'w Runtime =
  caas_JujuManagedUnits :: string
  applicationWorker_start :: "applicationWorker \<Rightarrow> 'w \<Rightarrow> error option \<times> 'w"
  catacomb_Add :: "worker \<Rightarrow> 'w \<Rightarrow> error option \<times> 'w"
  select_appRemoved :: "applicationWorker \<Rightarrow> 'w \<Rightarrow> removal_select \<times> 'w"
  worker_Stop :: "worker \<Rightarrow> 'w \<Rightarrow> error option \<times> 'w"

text \<open>
  Modelled from the spec: the supervision node (\<open>worker/catacomb\<close> is not part of the
  sources at hand). A node goes from alive to dying once, recording the reason of that
  transition; waiting on it yields the reason once its task has finished.
\<close>

record catacomb =
  invoked :: bool
  dying :: bool
  reason :: "error option"
  finished :: bool

definition catacomb_zero :: catacomb where
  "catacomb_zero = \<lparr>invoked = False, dying = False, reason = None, finished = False\<rparr>"



definition catacomb_ErrDying :: "catacomb \<Rightarrow> error" where
  "catacomb_ErrDying c = ErrDying"

subsection \<open>The provisioner\<close>

text \<open>
  The struct \<open>provisioner\<close>: its catacomb, its configuration and the registry
  \<open>appWorkers\<close>, a Go map that is nil (\<open>None\<close>) until the first save. The mutex is
  left out: the embedding is sequential. The last three fields are the world of the
  collaborators, the log of calls, and the number of channels made so far.
\<close>

record ('w, 'au, 'sb, 'ps, 'ug, 'uu) provisioner =
  catacomb :: catacomb
  config :: "('w, 'au, 'sb, 'ps, 'ug, 'uu) Config"
  appWorkers :: "(string \<rightharpoonup> applicationWorker) option"
  world :: 'w
  calls :: "call list"
  chans :: nat

text \<open>What a piece of the loop does next: go on, return an error, or panic on a nil interface.\<close>

datatype outcome = Running | Return error | Panic

text \<open>A call on a collaborator: run it on the world and log it.\<close>

definition invoke ::
  "call \<Rightarrow> ('w \<Rightarrow> 'a \<times> 'w) \<Rightarrow> ('w, 'au, 'sb, 'ps, 'ug, 'uu) provisioner
     \<Rightarrow> 'a \<times> ('w, 'au, 'sb, 'ps, 'ug, 'uu) provisioner" where
  "invoke c f p = (case f (world p) of (r, w') \<Rightarrow> (r, p\<lparr>world := w', calls := calls p @ [c]\<rparr>))"

definition log_call ::
  "call \<Rightarrow> ('w, 'au, 'sb, 'ps, 'ug, 'uu) provisioner \<Rightarrow> ('w, 'au, 'sb, 'ps, 'ug, 'uu) provisioner" where
  "log_call c p = p\<lparr>calls := calls p @ [c]\<rparr>"

text \<open>\<open>make(chan struct{})\<close>: a channel no one holds yet.\<close>

definition make_chan ::
  "('w, 'au, 'sb, 'ps, 'ug, 'uu) provisioner \<Rightarrow> nat \<times> ('w, 'au, 'sb, 'ps, 'ug, 'uu) provisioner" where
  "make_chan p = (chans p, p\<lparr>chans := Suc (chans p)\<rparr>)"

subsection \<open>Validate and NewWorker\<close>

definition Validate :: "('w, 'au, 'sb, 'ps, 'ug, 'uu) Config \<Rightarrow> error option" where
  "Validate cfg =
    (if ApplicationGetter cfg = None then Some (NotValid ''missing ApplicationGetter'')
     else if ApplicationUpdater cfg = None then Some (NotValid ''missing ApplicationUpdater'')
     else if ServiceBroker cfg = None then Some (NotValid ''missing ServiceBroker'')
     else if ContainerBroker cfg = None then Some (NotValid ''missing ContainerBroker'')
     else if PodSpecGetter cfg = None then Some (NotValid ''missing PodSpecGetter'')
     else if LifeGetter cfg = None then Some (NotValid ''missing LifeGetter'')
     else if UnitGetter cfg = None then Some (NotValid ''missing UnitGetter'')
     else if UnitUpdater cfg = None then Some (NotValid ''missing UnitUpdater'')
     else None)"

text \<open>
  Modelled from the spec: \<open>catacomb.Invoke\<close> with a plan that has a site and a work
  function starts the work as a task of the node and returns no error.
\<close>

definition catacomb_Invoke :: "catacomb \<Rightarrow> error option \<times> catacomb" where
  "catacomb_Invoke c = (None, c\<lparr>invoked := True\<rparr>)"

text \<open>
  \<open>NewWorker\<close> returns a worker and an error. The world is the state of the
  collaborators at the time of the call.
\<close>

definition NewWorker ::
  "('w, 'au, 'sb, 'ps, 'ug, 'uu) Config \<Rightarrow> 'w
     \<Rightarrow> ('w, 'au, 'sb, 'ps, 'ug, 'uu) provisioner option \<times> error option" where
  "NewWorker cfg w =
    (case Validate cfg of
       Some err \<Rightarrow> (None, Some (Trace err))
     | None \<Rightarrow>
        (let p = \<lparr>catacomb = catacomb_zero, config = cfg, appWorkers = None,
                  world = w, calls = [], chans = 0\<rparr>
         in case catacomb_Invoke (catacomb p) of
              (err, c) \<Rightarrow> (Some (p\<lparr>catacomb := c\<rparr>), err)))"



subsection \<open>The registry\<close>

text \<open>
  The primitives of a Go map from strings, with the nil map as \<open>None\<close>: reading and
  deleting work on a nil map, assigning to an entry of a nil map panics (the result
  \<open>None\<close> of \<open>map_assign\<close>).
\<close>

type_synonym 'v gomap = "(string \<rightharpoonup> 'v) option"

definition map_len_zero :: "'v gomap \<Rightarrow> bool" where
  "map_len_zero m = (case m of None \<Rightarrow> True | Some f \<Rightarrow> dom f = {})"

definition map_index :: "'v gomap \<Rightarrow> string \<Rightarrow> 'v option" where
  "map_index m k = (case m of None \<Rightarrow> None | Some f \<Rightarrow> f k)"

definition map_delete :: "'v gomap \<Rightarrow> string \<Rightarrow> 'v gomap" where
  "map_delete m k = (case m of None \<Rightarrow> None | Some f \<Rightarrow> Some (f(k := None)))"

definition map_assign :: "'v gomap \<Rightarrow> string \<Rightarrow> 'v \<Rightarrow> 'v gomap option" where
  "map_assign m k v = (case m of None \<Rightarrow> None | Some f \<Rightarrow> Some (Some (f(k \<mapsto> v))))"

text \<open>Lines 97 to 105. The result \<open>None\<close> is a panic.\<close>

definition saveApplicationWorker ::
  "string \<Rightarrow> applicationWorker \<Rightarrow> ('w, 'au, 'sb, 'ps, 'ug, 'uu) provisioner
     \<Rightarrow> ('w, 'au, 'sb, 'ps, 'ug, 'uu) provisioner option" where
  "saveApplicationWorker appName aw p =
    (let p1 = (if appWorkers p = None then p\<lparr>appWorkers := Some Map.empty\<rparr> else p)
     in case map_assign (appWorkers p1) appName aw of
          None \<Rightarrow> None
        | Some m \<Rightarrow> Some (p1\<lparr>appWorkers := m\<rparr>))"

text \<open>Lines 107 to 112.\<close>

definition deleteApplicationWorker ::
  "string \<Rightarrow> ('w, 'au, 'sb, 'ps, 'ug, 'uu) provisioner \<Rightarrow> ('w, 'au, 'sb, 'ps, 'ug, 'uu) provisioner" where
  "deleteApplicationWorker appName p = p\<lparr>appWorkers := map_delete (appWorkers p) appName\<rparr>"

text \<open>Lines 114 to 123. The result \<open>None\<close> is the pair (nil, false).\<close>

definition getApplicationWorker ::
  "string \<Rightarrow> ('w, 'au, 'sb, 'ps, 'ug, 'uu) provisioner \<Rightarrow> applicationWorker option" where
  "getApplicationWorker appName p =
    (if map_len_zero (appWorkers p) then None else map_index (appWorkers p) appName)"

text \<open>The registry as a mapping, whether the Go map is nil or not.\<close>

definition registry ::
  "('w, 'au, 'sb, 'ps, 'ug, 'uu) provisioner \<Rightarrow> (string \<rightharpoonup> applicationWorker)" where
  "registry p = (case appWorkers p of None \<Rightarrow> Map.empty | Some m \<Rightarrow> m)"

subsection \<open>The loop\<close>

text \<open>
  Modelled from the spec: \<open>newApplicationWorker\<close> (\<open>application_worker.go\<close> is not
  part of the sources at hand) builds the worker from the name, the removal channel and
  the flag it is given, keeps the capabilities, and starts the worker's own task; when
  that fails it returns an error and no worker.
\<close>

definition newApplicationWorker ::
  "'w Runtime \<Rightarrow> string \<Rightarrow> nat \<Rightarrow> bool \<Rightarrow> 'sb option \<Rightarrow> 'w ContainerBroker option
     \<Rightarrow> 'ps option \<Rightarrow> 'w LifeGetter option \<Rightarrow> 'w ApplicationGetter option \<Rightarrow> 'au option
     \<Rightarrow> 'ug option \<Rightarrow> 'uu option \<Rightarrow> ('w, 'au, 'sb, 'ps, 'ug, 'uu) provisioner
     \<Rightarrow> (error + applicationWorker) \<times> ('w, 'au, 'sb, 'ps, 'ug, 'uu) provisioner" where
  "newApplicationWorker rt appName removed managed serviceBroker containerBroker podSpecGetter
      lifeGetter applicationGetter applicationUpdater unitGetter unitUpdater p =
    (let w = \<lparr>application = appName, appRemoved = removed, jujuManagedUnits = managed\<rparr>
     in case invoke (newApplicationWorker_call appName removed managed)
               (applicationWorker_start rt w) p of
          (Some err, p') \<Rightarrow> (Inl err, p')
        | (None, p') \<Rightarrow> (Inr w, p'))"

text \<open>
  Lines 161 to 167: the \<open>select\<close> of the removal handshake. Either the send on the
  worker's removal channel goes through, or the worker's catacomb is seen dying and the
  channel is closed.
\<close>

definition select_removal ::
  "'w Runtime \<Rightarrow> applicationWorker \<Rightarrow> ('w, 'au, 'sb, 'ps, 'ug, 'uu) provisioner
     \<Rightarrow> ('w, 'au, 'sb, 'ps, 'ug, 'uu) provisioner" where
  "select_removal rt w p =
    (case select_appRemoved rt w (world p) of
       (Sent, w') \<Rightarrow> log_call (appRemoved_send (appRemoved w)) (p\<lparr>world := w'\<rparr>)
     | (WorkerDying, w') \<Rightarrow> log_call (appRemoved_close (appRemoved w)) (p\<lparr>world := w'\<rparr>))"

text \<open>
  Lines 145 to 173: the application is gone. Unexpose and delete its service, then, when
  a worker is registered, tell it, stop it and forget it.
\<close>

definition loop_removed ::
  "'w Runtime \<Rightarrow> string \<Rightarrow> ('w, 'au, 'sb, 'ps, 'ug, 'uu) provisioner
     \<Rightarrow> outcome \<times> ('w, 'au, 'sb, 'ps, 'ug, 'uu) provisioner" where
  "loop_removed rt appId p =
    (case ContainerBroker (config p) of
       None \<Rightarrow> (Panic, p)
     | Some cb \<Rightarrow>
        (case invoke (UnexposeService_call appId) (UnexposeService cb appId) p of
           (Some err, p1) \<Rightarrow> (Return (Trace err), p1)
         | (None, p1) \<Rightarrow>
            (case invoke (DeleteService_call appId) (DeleteService cb appId) p1 of
               (Some err, p2) \<Rightarrow> (Return (Trace err), p2)
             | (None, p2) \<Rightarrow>
                (case getApplicationWorker appId p2 of
                   None \<Rightarrow> (Running, p2)
                 | Some w \<Rightarrow>
                    (case invoke (Stop_call (AppWorker w)) (worker_Stop rt (AppWorker w))
                            (select_removal rt w p2) of
                       (Some err, p4) \<Rightarrow>
                         (Running, deleteApplicationWorker appId (log_call (Errorf_call appId err) p4))
                     | (None, p4) \<Rightarrow> (Running, deleteApplicationWorker appId p4))))))"

text \<open>
  Lines 183 to 205: a new application. Fetch its configuration, build its worker with a
  fresh removal channel, register the worker and add it to the catacomb. The result of
  \<open>catacomb.Add\<close> is dropped.
\<close>

definition loop_create ::
  "'w Runtime \<Rightarrow> string \<Rightarrow> ('w, 'au, 'sb, 'ps, 'ug, 'uu) provisioner
     \<Rightarrow> outcome \<times> ('w, 'au, 'sb, 'ps, 'ug, 'uu) provisioner" where
  "loop_create rt appId p =
    (case ApplicationGetter (config p) of
       None \<Rightarrow> (Panic, p)
     | Some ag \<Rightarrow>
        (case invoke (ApplicationConfig_call appId) (ApplicationConfig ag appId) p of
           (Inl err, p1) \<Rightarrow> (Return (Trace err), p1)
         | (Inr cfg, p1) \<Rightarrow>
            (let managed = GetBool cfg (caas_JujuManagedUnits rt) False
             in case make_chan p1 of
                  (ch, p2) \<Rightarrow>
                   (case newApplicationWorker rt appId ch managed
                           (ServiceBroker (config p2)) (ContainerBroker (config p2))
                           (PodSpecGetter (config p2)) (LifeGetter (config p2))
                           (ApplicationGetter (config p2)) (ApplicationUpdater (config p2))
                           (UnitGetter (config p2)) (UnitUpdater (config p2)) p2 of
                      (Inl err, p3) \<Rightarrow> (Return (Trace err), p3)
                    | (Inr w, p3) \<Rightarrow>
                       (case saveApplicationWorker appId w p3 of
                          None \<Rightarrow> (Panic, p3)
                        | Some p4 \<Rightarrow>
                           (case invoke (Add_call (AppWorker w)) (catacomb_Add rt (AppWorker w)) p4 of
                              (err, p5) \<Rightarrow> (Running, p5)))))))"

text \<open>Lines 142 to 206: the body of the loop over the names of one batch.\<close>

definition loop_app ::
  "'w Runtime \<Rightarrow> string \<Rightarrow> ('w, 'au, 'sb, 'ps, 'ug, 'uu) provisioner
     \<Rightarrow> outcome \<times> ('w, 'au, 'sb, 'ps, 'ug, 'uu) provisioner" where
  "loop_app rt appId p =
    (case LifeGetter (config p) of
       None \<Rightarrow> (Panic, p)
     | Some lg \<Rightarrow>
        (case invoke (Life_call appId) (Life lg appId) p of
           (Inl err, p1) \<Rightarrow>
             if IsNotFound err then loop_removed rt appId p1 else (Return (Trace err), p1)
         | (Inr appLife, p1) \<Rightarrow>
             if getApplicationWorker appId p1 \<noteq> None \<or> appLife = Dead then (Running, p1)
             else loop_create rt appId p1))"

text \<open>The loop over one batch: a return or a panic inside ends it.\<close>

fun loop_apps ::
  "'w Runtime \<Rightarrow> string list \<Rightarrow> ('w, 'au, 'sb, 'ps, 'ug, 'uu) provisioner
     \<Rightarrow> outcome \<times> ('w, 'au, 'sb, 'ps, 'ug, 'uu) provisioner" where
  "loop_apps rt [] p = (Running, p)"
| "loop_apps rt (appId # apps) p =
    (case loop_app rt appId p of
       (Running, p') \<Rightarrow> loop_apps rt apps p'
     | (Return err, p') \<Rightarrow> (Return err, p')
     | (Panic, p') \<Rightarrow> (Panic, p'))"

text \<open>
  What the \<open>select\<close> at the head of the loop can see: the catacomb dying, a batch of
  names on the watcher's channel, or that channel closed.
\<close>

datatype select_event = Dying_fired | Changes "string list" | Changes_closed

text \<open>
  Lines 134 to 208: the endless \<open>for\<close> with its \<open>select\<close>, run on the events that
  the select sees, in their order. With no event left the loop is still waiting in the
  select: it has not returned, which is the outcome \<open>Running\<close>.
\<close>

fun loop_select ::
  "'w Runtime \<Rightarrow> select_event list \<Rightarrow> ('w, 'au, 'sb, 'ps, 'ug, 'uu) provisioner
     \<Rightarrow> outcome \<times> ('w, 'au, 'sb, 'ps, 'ug, 'uu) provisioner" where
  "loop_select rt [] p = (Running, p)"
| "loop_select rt (Dying_fired # evs) p = (Return (catacomb_ErrDying (catacomb p)), p)"
| "loop_select rt (Changes_closed # evs) p = (Return (ErrorNew ''watcher closed channel''), p)"
| "loop_select rt (Changes apps # evs) p =
    (case loop_apps rt apps (log_call (Changes_recv apps) p) of
       (Running, p') \<Rightarrow> loop_select rt evs p'
     | (Return err, p') \<Rightarrow> (Return err, p')
     | (Panic, p') \<Rightarrow> (Panic, p'))"

text \<open>Lines 125 to 209: \<open>loop\<close>.\<close>

definition loop ::
  "'w Runtime \<Rightarrow> select_event list \<Rightarrow> ('w, 'au, 'sb, 'ps, 'ug, 'uu) provisioner
     \<Rightarrow> outcome \<times> ('w, 'au, 'sb, 'ps, 'ug, 'uu) provisioner" where
  "loop rt evs p =
    (case ApplicationGetter (config p) of
       None \<Rightarrow> (Panic, p)
     | Some ag \<Rightarrow>
        (case invoke WatchApplications_call (WatchApplications ag) p of
           (Inl err, p1) \<Rightarrow> (Return (Trace err), p1)
         | (Inr w, p1) \<Rightarrow>
            (case invoke (Add_call (WatcherWorker w)) (catacomb_Add rt (WatcherWorker w)) p1 of
               (Some err, p2) \<Rightarrow> (Return (Trace err), p2)
             | (None, p2) \<Rightarrow> loop_select rt evs p2)))"


subsection \<open>What the specification says of the configuration\<close>

text \<open>
  The names of the capabilities that a configuration lacks, in the order in which the
  specification lists the fields: application getter and updater, service broker,
  container broker, pod-spec getter, life getter, unit getter and updater.
\<close>

definition missing_fields :: "('w, 'au, 'sb, 'ps, 'ug, 'uu) Config \<Rightarrow> string list" where
  "missing_fields cfg =
     (if ApplicationGetter cfg = None then [''ApplicationGetter''] else [])
   @ (if ApplicationUpdater cfg = None then [''ApplicationUpdater''] else [])
   @ (if ServiceBroker cfg = None then [''ServiceBroker''] else [])
   @ (if ContainerBroker cfg = None then [''ContainerBroker''] else [])
   @ (if PodSpecGetter cfg = None then [''PodSpecGetter''] else [])
   @ (if LifeGetter cfg = None then [''LifeGetter''] else [])
   @ (if UnitGetter cfg = None then [''UnitGetter''] else [])
   @ (if UnitUpdater cfg = None then [''UnitUpdater''] else [])"

subsection \<open>Reading the log of calls\<close>

text \<open>The calls on the container broker.\<close>

fun is_broker_call :: "call \<Rightarrow> bool" where
  "is_broker_call (UnexposeService_call a) = True"
| "is_broker_call (DeleteService_call a) = True"
| "is_broker_call c = False"

text \<open>The constructions of application workers.\<close>

fun is_construction :: "call \<Rightarrow> bool" where
  "is_construction (newApplicationWorker_call a ch m) = True"
| "is_construction c = False"

text \<open>The batches received and the names looked at.\<close>

fun is_watched :: "call \<Rightarrow> bool" where
  "is_watched (Changes_recv apps) = True"
| "is_watched (Life_call a) = True"
| "is_watched c = False"

text \<open>What is done to a removal channel: a send or a close.\<close>

fun is_removal :: "nat \<Rightarrow> call \<Rightarrow> bool" where
  "is_removal ch (appRemoved_send c) = (c = ch)"
| "is_removal ch (appRemoved_close c) = (c = ch)"
| "is_removal ch c = False"

definition removals :: "nat \<Rightarrow> call list \<Rightarrow> nat" where
  "removals ch log = length (filter (is_removal ch) log)"

text \<open>
  What holds of the removal channels while the loop runs: the channel of a registered
  worker has been made and nothing has been done to it yet, registered workers have
  different channels, nothing is done twice to any channel, and nothing has been done
  to a channel that is yet to be made.
\<close>

definition handshake_inv :: "('w, 'au, 'sb, 'ps, 'ug, 'uu) provisioner \<Rightarrow> bool" where
  "handshake_inv p \<longleftrightarrow>
     (\<forall>n w. registry p n = Some w \<longrightarrow> appRemoved w < chans p \<and> removals (appRemoved w) (calls p) = 0)
   \<and> (\<forall>n n' w w'. registry p n = Some w \<and> registry p n' = Some w' \<and> appRemoved w = appRemoved w'
          \<longrightarrow> n = n')
   \<and> (\<forall>ch. removals ch (calls p) \<le> 1)
   \<and> (\<forall>ch. chans p \<le> ch \<longrightarrow> removals ch (calls p) = 0)"

text \<open>
  The batches and names that a run of the select on the given events looks at when
  nothing stops it: each batch as it is received, then its names in their order, up to
  the first event that is not a batch.
\<close>

fun expected :: "select_event list \<Rightarrow> call list" where
  "expected [] = []"
| "expected (Changes apps # evs) = Changes_recv apps # map Life_call apps @ expected evs"
| "expected (ev # evs) = []"

subsection \<open>What the specification says of the calls of the loop\<close>

text \<open>
  The calls that the reconciliation loop makes, written from the algorithm of the
  specification (steps 2 and 3), as lists. A capability that is nil ends the handling
  where it would be used.
\<close>

text \<open>
  After its \<open>Life\<close> query has found the application gone: unexpose the service,
  then delete it, then, when a worker is registered for the name, the removal
  handshake, the stop of the worker, and a log line when the stop failed. An error of
  the broker ends the handling there.
\<close>

definition removed_calls ::
  "'w Runtime \<Rightarrow> string \<Rightarrow> ('w, 'au, 'sb, 'ps, 'ug, 'uu) provisioner \<Rightarrow> call list" where
  "removed_calls rt a p =
    (case ContainerBroker (config p) of
       None \<Rightarrow> []
     | Some cb \<Rightarrow>
        UnexposeService_call a #
        (case UnexposeService cb a (world p) of
           (Some e, w2) \<Rightarrow> []
         | (None, w2) \<Rightarrow>
            DeleteService_call a #
            (case DeleteService cb a w2 of
               (Some e, w3) \<Rightarrow> []
             | (None, w3) \<Rightarrow>
                (case registry p a of
                   None \<Rightarrow> []
                 | Some w \<Rightarrow>
                    (case select_appRemoved rt w w3 of
                       (sel, w4) \<Rightarrow>
                        (case sel of
                           Sent \<Rightarrow> appRemoved_send (appRemoved w)
                         | WorkerDying \<Rightarrow> appRemoved_close (appRemoved w)) #
                        Stop_call (AppWorker w) #
                        (case worker_Stop rt (AppWorker w) w4 of
                           (None, w5) \<Rightarrow> []
                         | (Some e, w5) \<Rightarrow> [Errorf_call a e]))))))"

text \<open>
  For a name that is neither registered nor dead: fetch the configuration, construct the
  worker with a fresh removal channel and the managed-units flag, attach it. An error
  ends the handling there.
\<close>

definition created_calls ::
  "'w Runtime \<Rightarrow> string \<Rightarrow> ('w, 'au, 'sb, 'ps, 'ug, 'uu) provisioner \<Rightarrow> call list" where
  "created_calls rt a p =
    (case ApplicationGetter (config p) of
       None \<Rightarrow> []
     | Some ag \<Rightarrow>
        ApplicationConfig_call a #
        (case ApplicationConfig ag a (world p) of
           (Inl e, w2) \<Rightarrow> []
         | (Inr cfg, w2) \<Rightarrow>
            (let managed = GetBool cfg (caas_JujuManagedUnits rt) False;
                 aw = \<lparr>application = a, appRemoved = chans p, jujuManagedUnits = managed\<rparr>
             in newApplicationWorker_call a (chans p) managed #
                (case applicationWorker_start rt aw w2 of
                   (Some e, w3) \<Rightarrow> []
                 | (None, w3) \<Rightarrow> [Add_call (AppWorker aw)]))))"

text \<open>
  All the calls of handling one name: the \<open>Life\<close> query first, then what its result
  asks for; nothing more when the query fails otherwise, or when the name is registered
  or dead.
\<close>

definition name_calls ::
  "'w Runtime \<Rightarrow> string \<Rightarrow> ('w, 'au, 'sb, 'ps, 'ug, 'uu) provisioner \<Rightarrow> call list" where
  "name_calls rt a p =
    (case LifeGetter (config p) of
       None \<Rightarrow> []
     | Some lg \<Rightarrow>
        Life_call a #
        (case Life lg a (world p) of
           (Inl e, w1) \<Rightarrow> if IsNotFound e then removed_calls rt a (p\<lparr>world := w1\<rparr>) else []
         | (Inr l, w1) \<Rightarrow>
             if registry p a \<noteq> None \<or> l = Dead then []
             else created_calls rt a (p\<lparr>world := w1\<rparr>)))"

text \<open>
  The calls of a batch: those of its first name, all of them, then those of the next
  name from the state that the first has left, and so on while the loop has not stopped.
\<close>

fun batch_calls ::
  "'w Runtime \<Rightarrow> string list \<Rightarrow> ('w, 'au, 'sb, 'ps, 'ug, 'uu) provisioner \<Rightarrow> call list" where
  "batch_calls rt [] p = []"
| "batch_calls rt (a # apps) p =
     name_calls rt a p @
     (if fst (loop_app rt a p) = Running then batch_calls rt apps (snd (loop_app rt a p)) else [])"

text \<open>
  The calls of a run of the select: the receive of the first batch, the calls of that
  batch, all of them, and only then the receive of the next batch.
\<close>

fun run_calls ::
  "'w Runtime \<Rightarrow> select_event list \<Rightarrow> ('w, 'au, 'sb, 'ps, 'ug, 'uu) provisioner \<Rightarrow> call list" where
  "run_calls rt [] p = []"
| "run_calls rt (Changes apps # evs) p =
     Changes_recv apps # batch_calls rt apps (log_call (Changes_recv apps) p) @
     (if fst (loop_apps rt apps (log_call (Changes_recv apps) p)) = Running
      then run_calls rt evs (snd (loop_apps rt apps (log_call (Changes_recv apps) p))) else [])"
| "run_calls rt (ev # evs) p = []"

subsection \<open>A concrete setting\<close>

text \<open>
  Collaborators for the examples. The world counts the calls of \<open>Life\<close>: the first
  finds the application alive, every later one finds it gone.
\<close>

definition ag0 :: "nat ApplicationGetter" where
  "ag0 = \<lparr>WatchApplications = (\<lambda>w. (Inr (StringsWatcher 0), w)),
          ApplicationConfig = (\<lambda>a w. (Inr Map.empty, w))\<rparr>"

definition cb0 :: "nat ContainerBroker" where
  "cb0 = \<lparr>UnexposeService = (\<lambda>a w. (None, w)), DeleteService = (\<lambda>a w. (None, w))\<rparr>"

definition lg0 :: "nat LifeGetter" where
  "lg0 = \<lparr>Life = (\<lambda>a w. (if w = 0 then Inr Alive else Inl (NotFound a), Suc w))\<rparr>"

definition cfg0 :: "(nat, unit, unit, unit, unit, unit) Config" where
  "cfg0 = \<lparr>ApplicationGetter = Some ag0, ApplicationUpdater = Some (),
           ServiceBroker = Some (), ContainerBroker = Some cb0, PodSpecGetter = Some (),
           LifeGetter = Some lg0, UnitGetter = Some (), UnitUpdater = Some ()\<rparr>"

definition rt0 :: "nat Runtime" where
  "rt0 = \<lparr>caas_JujuManagedUnits = ''juju-managed-units'',
          applicationWorker_start = (\<lambda>aw w. (None, w)),
          catacomb_Add = (\<lambda>wk w. (None, w)),
          select_appRemoved = (\<lambda>aw w. (Sent, w)),
          worker_Stop = (\<lambda>wk w. (None, w))\<rparr>"

text \<open>The provisioner as \<open>NewWorker\<close> makes it, in a world with the given count.\<close>

definition p0 :: "nat \<Rightarrow> (nat, unit, unit, unit, unit, unit) provisioner" where
  "p0 w = \<lparr>catacomb = catacomb_zero\<lparr>invoked := True\<rparr>, config = cfg0, appWorkers = None,
           world = w, calls = [], chans = 0\<rparr>"

definition aw0 :: applicationWorker where
  "aw0 = \<lparr>application = ''app1'', appRemoved = 0, jujuManagedUnits = False\<rparr>"

text \<open>The same provisioner with a worker registered for app1.\<close>

definition p_tracked :: "nat \<Rightarrow> (nat, unit, unit, unit, unit, unit) provisioner" where
  "p_tracked w = (p0 w)\<lparr>appWorkers := Some [''app1'' \<mapsto> aw0], chans := 1\<rparr>"

text \<open>A provisioner whose broker cannot unexpose, and one whose broker cannot delete.\<close>

definition p_unexpose_fails :: "nat \<Rightarrow> (nat, unit, unit, unit, unit, unit) provisioner" where
  "p_unexpose_fails w = (p0 w)\<lparr>config := cfg0\<lparr>ContainerBroker :=
     Some (cb0\<lparr>UnexposeService := (\<lambda>a w. (Some (ErrorNew ''unexpose failed''), w))\<rparr>)\<rparr>\<rparr>"

definition p_delete_fails :: "nat \<Rightarrow> (nat, unit, unit, unit, unit, unit) provisioner" where
  "p_delete_fails w = (p0 w)\<lparr>config := cfg0\<lparr>ContainerBroker :=
     Some (cb0\<lparr>DeleteService := (\<lambda>a w. (Some (ErrorNew ''delete failed''), w))\<rparr>)\<rparr>\<rparr>"

text \<open>A provisioner whose application getter cannot fetch a configuration.\<close>

definition p_config_fails :: "nat \<Rightarrow> (nat, unit, unit, unit, unit, unit) provisioner" where
  "p_config_fails w = (p0 w)\<lparr>config := cfg0\<lparr>ApplicationGetter :=
     Some (ag0\<lparr>ApplicationConfig := (\<lambda>a w. (Inl (ErrorNew ''no config''), w))\<rparr>)\<rparr>\<rparr>"

text \<open>A provisioner whose life getter finds every application dead.\<close>

definition p_dead :: "nat \<Rightarrow> (nat, unit, unit, unit, unit, unit) provisioner" where
  "p_dead w = (p0 w)\<lparr>config := cfg0\<lparr>LifeGetter :=
     Some (lg0\<lparr>Life := (\<lambda>a w. (Inr Dead, Suc w))\<rparr>)\<rparr>\<rparr>"


text \<open>A provisioner whose life getter finds every application alive.\<close>

definition p_alive :: "nat \<Rightarrow> (nat, unit, unit, unit, unit, unit) provisioner" where
  "p_alive w = (p0 w)\<lparr>config := cfg0\<lparr>LifeGetter :=
     Some (lg0\<lparr>Life := (\<lambda>a w. (Inr Alive, Suc w))\<rparr>)\<rparr>\<rparr>"

text \<open>
  A runtime in which the worker is seen dying before the send goes through and stopping
  it fails; one in which a new worker cannot be started; one in which an application
  worker cannot be added to the catacomb.
\<close>

definition rt_dying :: "nat Runtime" where
  "rt_dying = rt0\<lparr>select_appRemoved := (\<lambda>aw w. (WorkerDying, w)),
                  worker_Stop := (\<lambda>wk w. (Some (ErrorNew ''stop failed''), w))\<rparr>"

definition rt_start_fails :: "nat Runtime" where
  "rt_start_fails = rt0\<lparr>applicationWorker_start := (\<lambda>aw w. (Some (ErrorNew ''no start''), w))\<rparr>"

definition rt_add_fails :: "nat Runtime" where
  "rt_add_fails = rt0\<lparr>catacomb_Add :=
     (\<lambda>wk w. (case wk of WatcherWorker sw \<Rightarrow> None | AppWorker aw \<Rightarrow> Some ErrDying, w))\<rparr>"

section \<open>Properties\<close>

subsection \<open>Basic facts\<close>

lemma invoke_eq:
  "invoke c f p = (r, p') \<longleftrightarrow>
     (\<exists>w'. f (world p) = (r, w') \<and> p' = p\<lparr>world := w', calls := calls p @ [c]\<rparr>)"
  by (auto simp: invoke_def split: prod.splits)

lemma getApplicationWorker_registry: "getApplicationWorker n p = registry p n"
  by (auto simp: getApplicationWorker_def registry_def map_len_zero_def map_index_def
      split: option.splits)

lemma registry_delete: "registry (deleteApplicationWorker n p) = (registry p)(n := None)"
  by (auto simp: deleteApplicationWorker_def registry_def map_delete_def split: option.splits)

lemma registry_upd [simp]:
  "registry (p\<lparr>world := w\<rparr>) = registry p"
  "registry (p\<lparr>calls := l\<rparr>) = registry p"
  "registry (p\<lparr>chans := n\<rparr>) = registry p"
  by (simp_all add: registry_def)

lemma save_Some:
  "\<exists>p'. saveApplicationWorker n aw p = Some p' \<and> registry p' = (registry p)(n \<mapsto> aw)
        \<and> appWorkers p' \<noteq> None"
  by (auto simp: saveApplicationWorker_def registry_def map_assign_def Let_def
      split: option.splits)

lemma delete_absent: "getApplicationWorker n p = None \<Longrightarrow> deleteApplicationWorker n p = p"
proof (cases "appWorkers p")
  case None
  then show ?thesis by (simp add: deleteApplicationWorker_def map_delete_def)
next
  case (Some m)
  assume "getApplicationWorker n p = None"
  with Some have "m n = None"
    by (auto simp: getApplicationWorker_def map_len_zero_def map_index_def split: if_splits)
  then have "m(n := None) = m" by (rule fun_upd_idem)
  with Some show ?thesis by (simp add: deleteApplicationWorker_def map_delete_def)
qed

lemma get_absent: "registry p n = None \<Longrightarrow> getApplicationWorker n p = None"
  by (simp add: getApplicationWorker_registry)

lemma save_nil:
  "appWorkers p = None \<Longrightarrow>
     saveApplicationWorker n aw p = Some (p\<lparr>appWorkers := Some [n \<mapsto> aw]\<rparr>)"
  by (simp add: saveApplicationWorker_def map_assign_def)

subsection \<open>The body of the loop, case by case\<close>

lemma select_removal_eq:
  "select_removal rt w p =
     p\<lparr>world := snd (select_appRemoved rt w (world p)),
       calls := calls p @ [if fst (select_appRemoved rt w (world p)) = Sent
                           then appRemoved_send (appRemoved w) else appRemoved_close (appRemoved w)]\<rparr>"
  by (simp add: select_removal_def log_call_def split: prod.splits removal_select.splits)

lemma loop_removed_unexpose_fails:
  assumes "ContainerBroker (config p) = Some cb"
    and "UnexposeService cb a (world p) = (Some e, w1)"
  shows "loop_removed rt a p = (Return (Trace e), p\<lparr>world := w1, calls := calls p @ [UnexposeService_call a]\<rparr>)"
  using assms by (simp add: loop_removed_def invoke_def)

lemma loop_removed_delete_fails:
  assumes "ContainerBroker (config p) = Some cb"
    and "UnexposeService cb a (world p) = (None, w1)"
    and "DeleteService cb a w1 = (Some e, w2)"
  shows "loop_removed rt a p = (Return (Trace e),
     p\<lparr>world := w2, calls := calls p @ [UnexposeService_call a, DeleteService_call a]\<rparr>)"
  using assms by (simp add: loop_removed_def invoke_def)

lemma loop_removed_untracked:
  assumes "ContainerBroker (config p) = Some cb"
    and "UnexposeService cb a (world p) = (None, w1)"
    and "DeleteService cb a w1 = (None, w2)"
    and "registry p a = None"
  shows "loop_removed rt a p = (Running,
     p\<lparr>world := w2, calls := calls p @ [UnexposeService_call a, DeleteService_call a]\<rparr>)"
  using assms by (simp add: loop_removed_def invoke_def getApplicationWorker_registry)

lemma loop_removed_tracked:
  assumes "ContainerBroker (config p) = Some cb"
    and "UnexposeService cb a (world p) = (None, w1)"
    and "DeleteService cb a w1 = (None, w2)"
    and "registry p a = Some w"
    and "select_appRemoved rt w w2 = (sel, w3)"
    and "worker_Stop rt (AppWorker w) w3 = (e, w4)"
  shows "loop_removed rt a p = (Running,
     deleteApplicationWorker a (p\<lparr>world := w4, calls := calls p @ [UnexposeService_call a, DeleteService_call a,
        (if sel = Sent then appRemoved_send (appRemoved w) else appRemoved_close (appRemoved w)),
        Stop_call (AppWorker w)] @ (case e of Some err \<Rightarrow> [Errorf_call a err] | None \<Rightarrow> [])\<rparr>))"
  using assms
  by (cases e) (simp_all add: loop_removed_def invoke_def getApplicationWorker_registry
      select_removal_eq log_call_def deleteApplicationWorker_def)

lemma loop_create_config_fails:
  assumes "ApplicationGetter (config p) = Some ag"
    and "ApplicationConfig ag a (world p) = (Inl e, w1)"
  shows "loop_create rt a p = (Return (Trace e),
     p\<lparr>world := w1, calls := calls p @ [ApplicationConfig_call a]\<rparr>)"
  using assms by (simp add: loop_create_def invoke_def)

lemma loop_create_start_fails:
  assumes "ApplicationGetter (config p) = Some ag"
    and "ApplicationConfig ag a (world p) = (Inr cfg, w1)"
    and "applicationWorker_start rt
           \<lparr>application = a, appRemoved = chans p,
            jujuManagedUnits = GetBool cfg (caas_JujuManagedUnits rt) False\<rparr> w1 = (Some e, w2)"
  shows "loop_create rt a p = (Return (Trace e),
     p\<lparr>world := w2, calls := calls p @ [ApplicationConfig_call a,
         newApplicationWorker_call a (chans p) (GetBool cfg (caas_JujuManagedUnits rt) False)],
       chans := Suc (chans p)\<rparr>)"
  using assms by (simp add: loop_create_def invoke_def make_chan_def newApplicationWorker_def)

lemma loop_create_ok:
  assumes "ApplicationGetter (config p) = Some ag"
    and "ApplicationConfig ag a (world p) = (Inr cfg, w1)"
    and "aw = \<lparr>application = a, appRemoved = chans p,
            jujuManagedUnits = GetBool cfg (caas_JujuManagedUnits rt) False\<rparr>"
    and "applicationWorker_start rt aw w1 = (None, w2)"
    and "catacomb_Add rt (AppWorker aw) w2 = (e, w3)"
  shows "\<exists>p'. loop_create rt a p = (Running, p')
     \<and> world p' = w3
     \<and> calls p' = calls p @ [ApplicationConfig_call a,
         newApplicationWorker_call a (chans p) (GetBool cfg (caas_JujuManagedUnits rt) False),
         Add_call (AppWorker aw)]
     \<and> chans p' = Suc (chans p)
     \<and> registry p' = (registry p)(a \<mapsto> aw)
     \<and> appWorkers p' \<noteq> None
     \<and> config p' = config p \<and> catacomb p' = catacomb p"
  using assms
  by (auto simp add: loop_create_def invoke_def make_chan_def newApplicationWorker_def
      saveApplicationWorker_def map_assign_def registry_def Let_def split: option.splits)

lemma loop_app_life_fails:
  assumes "LifeGetter (config p) = Some lg"
    and "Life lg a (world p) = (Inl e, w1)"
    and "\<not> IsNotFound e"
  shows "loop_app rt a p = (Return (Trace e), p\<lparr>world := w1, calls := calls p @ [Life_call a]\<rparr>)"
  using assms by (simp add: loop_app_def invoke_def)

lemma loop_app_removed:
  assumes "LifeGetter (config p) = Some lg"
    and "Life lg a (world p) = (Inl e, w1)"
    and "IsNotFound e"
  shows "loop_app rt a p = loop_removed rt a (p\<lparr>world := w1, calls := calls p @ [Life_call a]\<rparr>)"
  using assms by (simp add: loop_app_def invoke_def)

lemma loop_app_noop:
  assumes "LifeGetter (config p) = Some lg"
    and "Life lg a (world p) = (Inr l, w1)"
    and "registry p a \<noteq> None \<or> l = Dead"
  shows "loop_app rt a p = (Running, p\<lparr>world := w1, calls := calls p @ [Life_call a]\<rparr>)"
  using assms by (auto simp add: loop_app_def invoke_def getApplicationWorker_registry)

lemma loop_app_create:
  assumes "LifeGetter (config p) = Some lg"
    and "Life lg a (world p) = (Inr l, w1)"
    and "registry p a = None" and "l \<noteq> Dead"
  shows "loop_app rt a p = loop_create rt a (p\<lparr>world := w1, calls := calls p @ [Life_call a]\<rparr>)"
  using assms by (simp add: loop_app_def invoke_def getApplicationWorker_registry)

subsection \<open>What one pass through the body does to the state\<close>

lemma removals_append: "removals ch (l @ l') = removals ch l + removals ch l'"
  by (simp add: removals_def)

lemma removals_Nil [simp]: "removals ch [] = 0"
  by (simp add: removals_def)

lemma upd_config [simp]:
  "config (deleteApplicationWorker n p) = config p"
  "catacomb (deleteApplicationWorker n p) = catacomb p"
  "chans (deleteApplicationWorker n p) = chans p"
  "calls (deleteApplicationWorker n p) = calls p"
  "world (deleteApplicationWorker n p) = world p"
  by (simp_all add: deleteApplicationWorker_def)

text \<open>What one pass through the removal branch does to the state.\<close>

lemma loop_removed_effect:
  assumes "loop_removed rt a p = (out, p')"
  shows "config p' = config p \<and> catacomb p' = catacomb p \<and> chans p' = chans p
    \<and> (\<exists>log. calls p' = calls p @ log \<and> filter is_watched log = []
          \<and> filter is_construction log = []
          \<and> ((registry p' = registry p \<and> (\<forall>ch. removals ch log = 0))
             \<or> (\<exists>w. registry p a = Some w \<and> registry p' = (registry p)(a := None)
                   \<and> (\<forall>ch. removals ch log = (if ch = appRemoved w then 1 else 0)))))"
proof (cases "ContainerBroker (config p)")
  case None
  with assms show ?thesis by (simp add: loop_removed_def)
next
  case (Some cb)
  obtain e1 w1 where u: "UnexposeService cb a (world p) = (e1, w1)" by force
  show ?thesis
  proof (cases e1)
    case (Some e)
    with loop_removed_unexpose_fails [OF \<open>ContainerBroker (config p) = Some cb\<close>, of a e w1 rt] u assms
    show ?thesis by (auto simp: removals_def)
  next
    case None
    note e1 = this
    obtain e2 w2 where d: "DeleteService cb a w1 = (e2, w2)" by force
    show ?thesis
    proof (cases e2)
      case (Some e)
      with loop_removed_delete_fails [OF \<open>ContainerBroker (config p) = Some cb\<close>, of a w1 e w2 rt]
        u e1 d assms
      show ?thesis by (auto simp: removals_def)
    next
      case None
      note e2 = this
      show ?thesis
      proof (cases "registry p a")
        case None
        with loop_removed_untracked [OF \<open>ContainerBroker (config p) = Some cb\<close>, of a w1 w2 rt]
          u e1 d e2 assms
        show ?thesis by (auto simp: removals_def)
      next
        case (Some w)
        obtain sel w3 where s: "select_appRemoved rt w w2 = (sel, w3)" by force
        obtain e w4 where st: "worker_Stop rt (AppWorker w) w3 = (e, w4)" by force
        from loop_removed_tracked [OF \<open>ContainerBroker (config p) = Some cb\<close> _ _ Some s st, of w1]
          u e1 d e2 assms
        have p': "p' = deleteApplicationWorker a (p\<lparr>world := w4, calls := calls p @
            [UnexposeService_call a, DeleteService_call a,
             (if sel = Sent then appRemoved_send (appRemoved w) else appRemoved_close (appRemoved w)),
             Stop_call (AppWorker w)] @ (case e of Some err \<Rightarrow> [Errorf_call a err] | None \<Rightarrow> [])\<rparr>)"
          by simp
        let ?log = "[UnexposeService_call a, DeleteService_call a,
             (if sel = Sent then appRemoved_send (appRemoved w) else appRemoved_close (appRemoved w)),
             Stop_call (AppWorker w)] @ (case e of Some err \<Rightarrow> [Errorf_call a err] | None \<Rightarrow> [])"
        have 1: "calls p' = calls p @ ?log" using p' by simp
        have 2: "filter is_watched ?log = []" "filter is_construction ?log = []"
          by (simp_all split: option.splits)
        have 3: "\<forall>ch. removals ch ?log = (if ch = appRemoved w then 1 else 0)"
          by (simp add: removals_def split: option.splits)
        have 4: "registry p' = (registry p)(a := None)"
          using p' by (simp add: registry_delete)
        have 5: "config p' = config p \<and> catacomb p' = catacomb p \<and> chans p' = chans p"
          using p' by simp
        from 1 2 3 4 5 Some show ?thesis by blast
      qed
    qed
  qed
qed

lemma loop_create_effect:
  assumes "loop_create rt a p = (out, p')"
  shows "config p' = config p \<and> catacomb p' = catacomb p
    \<and> (\<exists>log. calls p' = calls p @ log \<and> filter is_watched log = []
          \<and> (\<forall>ch. removals ch log = 0)
          \<and> length (filter is_construction log) \<le> 1
          \<and> ((registry p' = registry p \<and> chans p \<le> chans p' \<and> out \<noteq> Running)
             \<or> (\<exists>w. out = Running \<and> appRemoved w = chans p \<and> application w = a
                   \<and> chans p' = Suc (chans p) \<and> registry p' = (registry p)(a \<mapsto> w)
                   \<and> length (filter is_construction log) = 1)))"
proof (cases "ApplicationGetter (config p)")
  case None
  with assms show ?thesis by (simp add: loop_create_def)
next
  case (Some ag)
  note ag = this
  obtain r w1 where c: "ApplicationConfig ag a (world p) = (r, w1)" by force
  show ?thesis
  proof (cases r)
    case (Inl e)
    with loop_create_config_fails [OF ag, of a e w1 rt] c assms
    show ?thesis by (auto simp: removals_def)
  next
    case (Inr cfg)
    define aw where "aw = \<lparr>application = a, appRemoved = chans p,
            jujuManagedUnits = GetBool cfg (caas_JujuManagedUnits rt) False\<rparr>"
    obtain e2 w2 where st: "applicationWorker_start rt aw w1 = (e2, w2)" by force
    show ?thesis
    proof (cases e2)
      case (Some e)
      with loop_create_start_fails [OF ag, of a cfg w1 rt e w2] c Inr st assms
      show ?thesis by (auto simp: removals_def aw_def)
    next
      case None
      obtain e3 w3 where ad: "catacomb_Add rt (AppWorker aw) w2 = (e3, w3)" by force
      from loop_create_ok [OF ag _ aw_def _ ad, of w1] c Inr st None assms
      have *: "out = Running" "calls p' = calls p @ [ApplicationConfig_call a,
         newApplicationWorker_call a (chans p) (GetBool cfg (caas_JujuManagedUnits rt) False),
         Add_call (AppWorker aw)]" "chans p' = Suc (chans p)"
        "registry p' = (registry p)(a \<mapsto> aw)" "config p' = config p" "catacomb p' = catacomb p"
        by auto
      have "appRemoved aw = chans p" "application aw = a" by (simp_all add: aw_def)
      with * show ?thesis by (auto simp: removals_def)
    qed
  qed
qed

lemma loop_app_effect:
  assumes "loop_app rt a p = (out, p')"
  shows "config p' = config p \<and> catacomb p' = catacomb p \<and> chans p \<le> chans p'
    \<and> (\<exists>log. calls p' = calls p @ log
          \<and> (filter is_watched log = [Life_call a] \<or> out = Panic \<and> log = [])
          \<and> length (filter is_construction log) \<le> 1
          \<and> ((registry p' = registry p \<and> (\<forall>ch. removals ch log = 0))
             \<or> (\<exists>w. registry p a = Some w \<and> registry p' = (registry p)(a := None)
                   \<and> chans p' = chans p
                   \<and> (\<forall>ch. removals ch log = (if ch = appRemoved w then 1 else 0)))
             \<or> (\<exists>w. registry p a = None \<and> appRemoved w = chans p \<and> chans p' = Suc (chans p)
                   \<and> registry p' = (registry p)(a \<mapsto> w) \<and> (\<forall>ch. removals ch log = 0))))"
proof (cases "LifeGetter (config p)")
  case None
  with assms show ?thesis by (simp add: loop_app_def)
next
  case (Some lg)
  note lg = this
  obtain r w1 where l: "Life lg a (world p) = (r, w1)" by force
  let ?p1 = "p\<lparr>world := w1, calls := calls p @ [Life_call a]\<rparr>"
  show ?thesis
  proof (cases r)
    case (Inl e)
    show ?thesis
    proof (cases "IsNotFound e")
      case False
      with loop_app_life_fails [OF lg, of a e w1 rt] l Inl assms
      show ?thesis by (auto simp: removals_def)
    next
      case True
      with loop_app_removed [OF lg, of a e w1 rt] l Inl assms
      have "loop_removed rt a ?p1 = (out, p')" by simp
      from loop_removed_effect [OF this]
      obtain log where log: "config p' = config p" "catacomb p' = catacomb p" "chans p' = chans p"
        "calls p' = calls p @ Life_call a # log" "filter is_watched log = []"
        "filter is_construction log = []"
        "(registry p' = registry p \<and> (\<forall>ch. removals ch log = 0))
             \<or> (\<exists>w. registry p a = Some w \<and> registry p' = (registry p)(a := None)
                   \<and> (\<forall>ch. removals ch log = (if ch = appRemoved w then 1 else 0)))"
        by auto
      have r: "\<And>ch. removals ch (Life_call a # log) = removals ch log"
        by (simp add: removals_def)
      from log show ?thesis
        apply (intro conjI)
           apply simp
          apply simp
         apply simp
        apply (rule exI [of _ "Life_call a # log"])
        apply (simp add: r)
        done
    qed
  next
    case (Inr lf)
    show ?thesis
    proof (cases "registry p a \<noteq> None \<or> lf = Dead")
      case True
      from loop_app_noop [OF lg _ True, of w1 rt] l Inr assms
      show ?thesis by (auto simp: removals_def)
    next
      case False
      then have "registry p a = None" "lf \<noteq> Dead" by auto
      from loop_app_create [OF lg _ this, of w1 rt] l Inr assms
      have "loop_create rt a ?p1 = (out, p')" by simp
      from loop_create_effect [OF this]
      obtain log where log: "config p' = config p" "catacomb p' = catacomb p"
        "calls p' = calls p @ Life_call a # log" "filter is_watched log = []"
        "\<forall>ch. removals ch log = 0" "length (filter is_construction log) \<le> 1"
        "(registry p' = registry p \<and> chans p \<le> chans p' \<and> out \<noteq> Running)
             \<or> (\<exists>w. out = Running \<and> appRemoved w = chans p \<and> application w = a
                   \<and> chans p' = Suc (chans p) \<and> registry p' = (registry p)(a \<mapsto> w)
                   \<and> length (filter is_construction log) = 1)"
        by auto
      have r: "\<And>ch. removals ch (Life_call a # log) = removals ch log"
        by (simp add: removals_def)
      from log \<open>registry p a = None\<close> show ?thesis
        apply (intro conjI)
           apply simp
          apply simp
         apply auto[1]
        apply (rule exI [of _ "Life_call a # log"])
        apply (simp add: r)
        apply blast
        done
    qed
  qed
qed

subsection \<open>The removal channels\<close>

lemma inv_quiet:
  assumes "handshake_inv p" and "calls p' = calls p @ log" and "\<forall>ch. removals ch log = 0"
    and "registry p' = registry p" and "chans p \<le> chans p'"
  shows "handshake_inv p'"
  using assms unfolding handshake_inv_def
  by (auto simp: removals_append) (metis less_le_trans)

lemma inv_removed:
  assumes "handshake_inv p" and "calls p' = calls p @ log"
    and "registry p a = Some w" and "registry p' = (registry p)(a := None)"
    and "chans p' = chans p"
    and "\<forall>ch. removals ch log = (if ch = appRemoved w then 1 else 0)"
  shows "handshake_inv p'"
proof -
  from assms(1,3) have w: "appRemoved w < chans p" "removals (appRemoved w) (calls p) = 0"
    unfolding handshake_inv_def by blast+
  have other: "appRemoved w' \<noteq> appRemoved w" if "registry p n = Some w'" "n \<noteq> a" for n w'
    using assms(1,3) that unfolding handshake_inv_def by blast
  have r: "removals ch (calls p') = removals ch (calls p) + (if ch = appRemoved w then 1 else 0)" for ch
    using assms(2,6) by (simp add: removals_append)
  have 1: "\<forall>n w'. registry p' n = Some w' \<longrightarrow> appRemoved w' < chans p' \<and> removals (appRemoved w') (calls p') = 0"
  proof (intro allI impI)
    fix n w' assume "registry p' n = Some w'"
    with assms(4) have n: "n \<noteq> a" "registry p n = Some w'" by (auto split: if_splits)
    with assms(1) have "appRemoved w' < chans p" "removals (appRemoved w') (calls p) = 0"
      unfolding handshake_inv_def by blast+
    with other [OF n(2,1)] r assms(5)
    show "appRemoved w' < chans p' \<and> removals (appRemoved w') (calls p') = 0" by simp
  qed
  have 2: "\<forall>n n' w1 w2. registry p' n = Some w1 \<and> registry p' n' = Some w2 \<and> appRemoved w1 = appRemoved w2
          \<longrightarrow> n = n'"
    using assms(1,4) unfolding handshake_inv_def
    by (auto split: if_splits) 
  have 3: "\<forall>ch. removals ch (calls p') \<le> 1"
  proof
    fix ch
    from assms(1) have "removals ch (calls p) \<le> 1" unfolding handshake_inv_def by blast
    with w r [of ch] show "removals ch (calls p') \<le> 1" by (cases "ch = appRemoved w") auto
  qed
  have 4: "\<forall>ch. chans p' \<le> ch \<longrightarrow> removals ch (calls p') = 0"
  proof (intro allI impI)
    fix ch assume "chans p' \<le> ch"
    with assms(5) w have "chans p \<le> ch" "ch \<noteq> appRemoved w" by auto
    with assms(1) r [of ch] show "removals ch (calls p') = 0"
      unfolding handshake_inv_def by simp
  qed
  from 1 2 3 4 show ?thesis unfolding handshake_inv_def by blast
qed

lemma inv_created:
  assumes "handshake_inv p" and "calls p' = calls p @ log"
    and "appRemoved w = chans p" and "registry p' = (registry p)(a \<mapsto> w)"
    and "chans p' = Suc (chans p)"
    and "\<forall>ch. removals ch log = 0"
  shows "handshake_inv p'"
proof -
  have r: "removals ch (calls p') = removals ch (calls p)" for ch
    using assms(2,6) by (simp add: removals_append)
  from assms(1) have old: "appRemoved w' < chans p \<and> removals (appRemoved w') (calls p) = 0"
    if "registry p n = Some w'" for n w'
    using that unfolding handshake_inv_def by blast
  from assms(1) have fresh: "removals ch (calls p) = 0" if "chans p \<le> ch" for ch
    using that unfolding handshake_inv_def by blast
  have 1: "\<forall>n w'. registry p' n = Some w' \<longrightarrow> appRemoved w' < chans p' \<and> removals (appRemoved w') (calls p') = 0"
  proof (intro allI impI)
    fix n w' assume n: "registry p' n = Some w'"
    show "appRemoved w' < chans p' \<and> removals (appRemoved w') (calls p') = 0"
    proof (cases "n = a")
      case True
      with n assms(4) have "w' = w" by simp
      with assms(3,5) fresh [of "chans p"] r show ?thesis by simp
    next
      case False
      with n assms(4) have "registry p n = Some w'" by simp
      from old [OF this] assms(5) r show ?thesis by simp
    qed
  qed
  have 2: "\<forall>n n' w1 w2. registry p' n = Some w1 \<and> registry p' n' = Some w2 \<and> appRemoved w1 = appRemoved w2
          \<longrightarrow> n = n'"
  proof (intro allI impI)
    fix n n' w1 w2
    assume h: "registry p' n = Some w1 \<and> registry p' n' = Some w2 \<and> appRemoved w1 = appRemoved w2"
    show "n = n'"
    proof (cases "n = a"; cases "n' = a")
      assume "n = a" "n' \<noteq> a"
      with h assms(4) have "w1 = w" "registry p n' = Some w2" by auto
      with old [of n' w2] assms(3) h show ?thesis by simp
    next
      assume "n \<noteq> a" "n' = a"
      with h assms(4) have "w2 = w" "registry p n = Some w1" by auto
      with old [of n w1] assms(3) h show ?thesis by simp
    next
      assume "n \<noteq> a" "n' \<noteq> a"
      with h assms(4) have "registry p n = Some w1" "registry p n' = Some w2" by auto
      with assms(1) h show ?thesis unfolding handshake_inv_def by blast
    qed simp
  qed
  have 3: "\<forall>ch. removals ch (calls p') \<le> 1"
    using assms(1) r unfolding handshake_inv_def by simp
  have 4: "\<forall>ch. chans p' \<le> ch \<longrightarrow> removals ch (calls p') = 0"
    using fresh r assms(5) by simp
  from 1 2 3 4 show ?thesis unfolding handshake_inv_def by blast
qed

lemma loop_app_inv:
  assumes "loop_app rt a p = (out, p')" and "handshake_inv p"
  shows "handshake_inv p'"
proof -
  from loop_app_effect [OF assms(1)] obtain log where
    c: "chans p \<le> chans p'" "calls p' = calls p @ log"
    and d: "(registry p' = registry p \<and> (\<forall>ch. removals ch log = 0))
             \<or> (\<exists>w. registry p a = Some w \<and> registry p' = (registry p)(a := None)
                   \<and> chans p' = chans p
                   \<and> (\<forall>ch. removals ch log = (if ch = appRemoved w then 1 else 0)))
             \<or> (\<exists>w. registry p a = None \<and> appRemoved w = chans p \<and> chans p' = Suc (chans p)
                   \<and> registry p' = (registry p)(a \<mapsto> w) \<and> (\<forall>ch. removals ch log = 0))"
    by blast
  from d show ?thesis
  proof (elim disjE exE conjE)
    assume "registry p' = registry p" "\<forall>ch. removals ch log = 0"
    with inv_quiet [OF assms(2) c(2)] c(1) show ?thesis by blast
  next
    fix w assume "registry p a = Some w" "registry p' = (registry p)(a := None)"
      "chans p' = chans p" "\<forall>ch. removals ch log = (if ch = appRemoved w then 1 else 0)"
    with inv_removed [OF assms(2) c(2)] show ?thesis by blast
  next
    fix w assume "appRemoved w = chans p" "chans p' = Suc (chans p)"
      "registry p' = (registry p)(a \<mapsto> w)" "\<forall>ch. removals ch log = 0"
    with inv_created [OF assms(2) c(2)] show ?thesis by blast
  qed
qed

subsection \<open>Batches and events\<close>

lemma loop_apps_effect:
  "loop_apps rt apps p = (out, p') \<Longrightarrow>
     config p' = config p \<and> catacomb p' = catacomb p
     \<and> (handshake_inv p \<longrightarrow> handshake_inv p')
     \<and> (\<exists>log. calls p' = calls p @ log
           \<and> prefix (filter is_watched log) (map Life_call apps)
           \<and> (out = Running \<longrightarrow> filter is_watched log = map Life_call apps))"
proof (induction apps arbitrary: p)
  case Nil
  then show ?case by auto
next
  case (Cons a apps)
  obtain o1 p1 where s: "loop_app rt a p = (o1, p1)" by force
  from loop_app_effect [OF s] obtain log1 where
    e: "config p1 = config p" "catacomb p1 = catacomb p" "calls p1 = calls p @ log1"
      "filter is_watched log1 = [Life_call a] \<or> o1 = Panic \<and> log1 = []"
    by blast
  have i: "handshake_inv p \<longrightarrow> handshake_inv p1" using loop_app_inv [OF s] by blast
  show ?case
  proof (cases o1)
    case Running
    with s Cons.prems have "loop_apps rt apps p1 = (out, p')" by simp
    from Cons.IH [OF this] obtain log where
      l: "config p' = config p1" "catacomb p' = catacomb p1"
        "handshake_inv p1 \<longrightarrow> handshake_inv p'" "calls p' = calls p1 @ log"
        "prefix (filter is_watched log) (map Life_call apps)"
        "out = Running \<longrightarrow> filter is_watched log = map Life_call apps"
      by blast
    from e(4) Running have w: "filter is_watched log1 = [Life_call a]" by simp
    have "calls p' = calls p @ (log1 @ log)" using e l by simp
    moreover have "prefix (filter is_watched (log1 @ log)) (map Life_call (a # apps))"
      using w l(5) by simp
    moreover have "out = Running \<longrightarrow> filter is_watched (log1 @ log) = map Life_call (a # apps)"
      using w l(6) by simp
    ultimately have "\<exists>log. calls p' = calls p @ log
           \<and> prefix (filter is_watched log) (map Life_call (a # apps))
           \<and> (out = Running \<longrightarrow> filter is_watched log = map Life_call (a # apps))"
      by blast
    moreover have "config p' = config p" "catacomb p' = catacomb p"
      "handshake_inv p \<longrightarrow> handshake_inv p'"
      using e l i by simp_all
    ultimately show ?thesis by simp
  next
    case (Return err)
    with s Cons.prems have o: "out = Return err" "p' = p1" by simp_all
    from e(4) have "prefix (filter is_watched log1) (map Life_call (a # apps))" by auto
    with o e i show ?thesis by auto
  next
    case Panic
    with s Cons.prems have o: "out = Panic" "p' = p1" by simp_all
    from e(4) have "prefix (filter is_watched log1) (map Life_call (a # apps))" by auto
    with o e i show ?thesis by auto
  qed
qed

lemma handshake_inv_log:
  "handshake_inv (p\<lparr>calls := calls p @ [Changes_recv apps]\<rparr>) = handshake_inv p"
  by (simp add: handshake_inv_def removals_append) (simp add: removals_def)

lemma loop_select_effect:
  "loop_select rt evs p = (out, p') \<Longrightarrow>
     config p' = config p \<and> catacomb p' = catacomb p
     \<and> (handshake_inv p \<longrightarrow> handshake_inv p')
     \<and> (\<exists>log. calls p' = calls p @ log
           \<and> prefix (filter is_watched log) (expected evs)
           \<and> (out = Running \<longrightarrow> filter is_watched log = expected evs))"
proof (induction evs arbitrary: p)
  case Nil
  then show ?case by auto
next
  case (Cons ev evs)
  show ?case
  proof (cases ev)
    case Dying_fired
    with Cons.prems show ?thesis by auto
  next
    case Changes_closed
    with Cons.prems show ?thesis by auto
  next
    case (Changes apps)
    let ?p0 = "log_call (Changes_recv apps) p"
    obtain o1 p1 where s: "loop_apps rt apps ?p0 = (o1, p1)" by force
    from loop_apps_effect [OF s] obtain log1 where
      e: "config p1 = config p" "catacomb p1 = catacomb p"
        "handshake_inv p \<longrightarrow> handshake_inv p1"
        "calls p1 = calls p @ Changes_recv apps # log1"
        "prefix (filter is_watched log1) (map Life_call apps)"
        "o1 = Running \<longrightarrow> filter is_watched log1 = map Life_call apps"
      by (auto simp: log_call_def handshake_inv_log)
    show ?thesis
    proof (cases o1)
      case Running
      with s Changes Cons.prems have "loop_select rt evs p1 = (out, p')" by simp
      from Cons.IH [OF this] obtain log where
        l: "config p' = config p1" "catacomb p' = catacomb p1"
          "handshake_inv p1 \<longrightarrow> handshake_inv p'" "calls p' = calls p1 @ log"
          "prefix (filter is_watched log) (expected evs)"
          "out = Running \<longrightarrow> filter is_watched log = expected evs"
        by blast
      from e(6) Running have w: "filter is_watched log1 = map Life_call apps" by simp
      have "calls p' = calls p @ (Changes_recv apps # log1 @ log)" using e l by simp
      moreover have "prefix (filter is_watched (Changes_recv apps # log1 @ log)) (expected (ev # evs))"
        using w l(5) Changes by simp
      moreover have "out = Running \<longrightarrow>
          filter is_watched (Changes_recv apps # log1 @ log) = expected (ev # evs)"
        using w l(6) Changes by simp
      ultimately have "\<exists>log. calls p' = calls p @ log
           \<and> prefix (filter is_watched log) (expected (ev # evs))
           \<and> (out = Running \<longrightarrow> filter is_watched log = expected (ev # evs))"
        by blast
      moreover have "config p' = config p" "catacomb p' = catacomb p"
        "handshake_inv p \<longrightarrow> handshake_inv p'"
        using e l by simp_all
      ultimately show ?thesis by simp
    next
      case (Return err)
      with s Changes Cons.prems have o: "out = Return err" "p' = p1" by simp_all
      have "prefix (filter is_watched (Changes_recv apps # log1)) (expected (ev # evs))"
        using e(5) Changes by (auto simp: prefix_def)
      with o e show ?thesis by auto
    next
      case Panic
      with s Changes Cons.prems have o: "out = Panic" "p' = p1" by simp_all
      have "prefix (filter is_watched (Changes_recv apps # log1)) (expected (ev # evs))"
        using e(5) Changes by (auto simp: prefix_def)
      with o e show ?thesis by auto
    qed
  qed
qed


lemma loop_started:
  assumes "ApplicationGetter (config p) = Some ag"
    and "WatchApplications ag (world p) = (Inr sw, w1)"
    and "catacomb_Add rt (WatcherWorker sw) w1 = (None, w2)"
  shows "loop rt evs p = loop_select rt evs
     (p\<lparr>world := w2, calls := calls p @ [WatchApplications_call, Add_call (WatcherWorker sw)]\<rparr>)"
  using assms by (simp add: loop_def invoke_def)

lemma loop_cases:
  assumes "loop rt evs p = (out, p')"
  shows "(out \<noteq> Running \<and> catacomb p' = catacomb p \<and> config p' = config p
           \<and> registry p' = registry p \<and> chans p' = chans p
           \<and> (\<exists>log. calls p' = calls p @ log \<and> filter is_watched log = []
                 \<and> (\<forall>ch. removals ch log = 0)))
       \<or> (\<exists>w sw. loop_select rt evs
             (p\<lparr>world := w, calls := calls p @ [WatchApplications_call, Add_call (WatcherWorker sw)]\<rparr>)
            = (out, p'))"
proof (cases "ApplicationGetter (config p)")
  case None
  with assms show ?thesis by (simp add: loop_def)
next
  case (Some ag)
  obtain r w1 where wa: "WatchApplications ag (world p) = (r, w1)" by force
  show ?thesis
  proof (cases r)
    case (Inl e)
    with Some wa assms show ?thesis
      by (auto simp: loop_def invoke_def removals_def)
  next
    case (Inr sw)
    obtain e w2 where ad: "catacomb_Add rt (WatcherWorker sw) w1 = (e, w2)" by force
    show ?thesis
    proof (cases e)
      case None
      with loop_started [OF Some, of sw w1 rt w2 evs] wa Inr ad assms show ?thesis by auto
    next
      case (Some err)
      with \<open>ApplicationGetter (config p) = Some ag\<close> wa Inr ad assms show ?thesis
        by (auto simp: loop_def invoke_def removals_def)
    qed
  qed
qed

lemma loop_effect:
  assumes "loop rt evs p = (out, p')"
  shows "config p' = config p \<and> catacomb p' = catacomb p
     \<and> (handshake_inv p \<longrightarrow> handshake_inv p')
     \<and> (\<exists>log. calls p' = calls p @ log
           \<and> prefix (filter is_watched log) (expected evs)
           \<and> (out = Running \<longrightarrow> filter is_watched log = expected evs))"
  using loop_cases [OF assms]
proof (elim disjE exE conjE)
  fix log
  assume a: "out \<noteq> Running" "catacomb p' = catacomb p" "config p' = config p"
    "registry p' = registry p" "chans p' = chans p" "calls p' = calls p @ log"
    "filter is_watched log = []" "\<forall>ch. removals ch log = 0"
  then have "handshake_inv p \<longrightarrow> handshake_inv p'"
    using inv_quiet [of p p' log] by simp
  with a show ?thesis by auto
next
  fix w sw
  let ?p2 = "p\<lparr>world := w, calls := calls p @ [WatchApplications_call, Add_call (WatcherWorker sw)]\<rparr>"
  assume "loop_select rt evs ?p2 = (out, p')"
  from loop_select_effect [OF this] obtain log where
    l: "config p' = config p" "catacomb p' = catacomb p"
      "handshake_inv ?p2 \<longrightarrow> handshake_inv p'"
      "calls p' = calls p @ [WatchApplications_call, Add_call (WatcherWorker sw)] @ log"
      "prefix (filter is_watched log) (expected evs)"
      "out = Running \<longrightarrow> filter is_watched log = expected evs"
    by auto
  have "handshake_inv p \<longrightarrow> handshake_inv ?p2"
    using inv_quiet [of p ?p2 "[WatchApplications_call, Add_call (WatcherWorker sw)]"]
    by (simp add: removals_def)
  with l(3) have i: "handshake_inv p \<longrightarrow> handshake_inv p'" by blast
  have "\<exists>log. calls p' = calls p @ log
           \<and> prefix (filter is_watched log) (expected evs)
           \<and> (out = Running \<longrightarrow> filter is_watched log = expected evs)"
    apply (rule exI [of _ "[WatchApplications_call, Add_call (WatcherWorker sw)] @ log"])
    using l by simp
  with l(1,2) i show ?thesis by simp
qed



lemma NewWorker_inv:
  assumes "NewWorker cfg w0 = (Some q, err)"
  shows "handshake_inv q"
proof -
  from assms have "q = \<lparr>catacomb = catacomb_zero\<lparr>invoked := True\<rparr>, config = cfg,
      appWorkers = None, world = w0, calls = [], chans = 0\<rparr>"
    by (auto simp: NewWorker_def catacomb_Invoke_def split: option.splits)
  then show ?thesis by (simp add: handshake_inv_def registry_def)
qed

lemma loop_app_tracked_removed:
  assumes "LifeGetter (config p) = Some lg" and "ContainerBroker (config p) = Some cb"
    and "Life lg a (world p) = (Inl err, w1)" and "IsNotFound err"
    and "UnexposeService cb a w1 = (None, w2)" and "DeleteService cb a w2 = (None, w3)"
    and "getApplicationWorker a p = Some w"
    and "select_appRemoved rt w w3 = (sel, w4)" and "worker_Stop rt (AppWorker w) w4 = (e, w5)"
  shows "\<exists>p'. loop_app rt a p = (Running, p') \<and> world p' = w5
          \<and> calls p' = calls p @ [Life_call a, UnexposeService_call a, DeleteService_call a,
               (case sel of Sent \<Rightarrow> appRemoved_send (appRemoved w)
                          | WorkerDying \<Rightarrow> appRemoved_close (appRemoved w)),
               Stop_call (AppWorker w)]
               @ (case e of None \<Rightarrow> [] | Some serr \<Rightarrow> [Errorf_call a serr])
          \<and> registry p' = (registry p)(a := None)"
proof -
  define p1 where "p1 = p\<lparr>world := w1, calls := calls p @ [Life_call a]\<rparr>"
  have p1: "config p1 = config p" "world p1 = w1" "calls p1 = calls p @ [Life_call a]"
    "registry p1 = registry p"
    by (simp_all add: p1_def)
  from assms p1 have cb1: "ContainerBroker (config p1) = Some cb" by simp
  from assms p1 have reg: "registry p1 a = Some w" by (simp add: getApplicationWorker_registry)
  have 1: "loop_app rt a p = loop_removed rt a p1"
    unfolding p1_def by (rule loop_app_removed [OF assms(1,3,4)])
  from assms(5) p1 have u: "UnexposeService cb a (world p1) = (None, w2)" by simp
  define log where "log = [UnexposeService_call a, DeleteService_call a,
        (if sel = Sent then appRemoved_send (appRemoved w) else appRemoved_close (appRemoved w)),
        Stop_call (AppWorker w)] @ (case e of Some err \<Rightarrow> [Errorf_call a err] | None \<Rightarrow> [])"
  define p2 where "p2 = p1\<lparr>world := w5, calls := calls p1 @ log\<rparr>"
  have 2: "loop_removed rt a p1 = (Running, deleteApplicationWorker a p2)"
    unfolding p2_def log_def
    by (rule loop_removed_tracked [OF cb1 u assms(6) reg assms(8,9)])
  have l: "log = [UnexposeService_call a, DeleteService_call a,
               (case sel of Sent \<Rightarrow> appRemoved_send (appRemoved w)
                          | WorkerDying \<Rightarrow> appRemoved_close (appRemoved w)),
               Stop_call (AppWorker w)]
               @ (case e of None \<Rightarrow> [] | Some serr \<Rightarrow> [Errorf_call a serr])"
    unfolding log_def by (cases sel; cases e) simp_all
  have 3: "calls (deleteApplicationWorker a p2) = calls p @ Life_call a # log"
    by (simp add: p2_def p1)
  have 4: "world (deleteApplicationWorker a p2) = w5" by (simp add: p2_def)
  have "registry p2 = registry p" by (simp add: p2_def p1)
  then have 5: "registry (deleteApplicationWorker a p2) = (registry p)(a := None)"
    by (simp add: registry_delete)
  from 1 2 3 4 5 show ?thesis unfolding l by simp
qed


lemma loop_app_created:
  assumes "LifeGetter (config p) = Some lg" and "ApplicationGetter (config p) = Some ag"
    and "Life lg a (world p) = (Inr l, w1)" and "getApplicationWorker a p = None" and "l \<noteq> Dead"
    and "ApplicationConfig ag a w1 = (Inr cfg, w2)"
    and "aw = \<lparr>application = a, appRemoved = chans p,
            jujuManagedUnits = GetBool cfg (caas_JujuManagedUnits rt) False\<rparr>"
    and "applicationWorker_start rt aw w2 = (None, w3)"
  shows "\<exists>p'. loop_app rt a p = (Running, p')
     \<and> calls p' = calls p @ [Life_call a, ApplicationConfig_call a,
         newApplicationWorker_call a (chans p) (GetBool cfg (caas_JujuManagedUnits rt) False),
         Add_call (AppWorker aw)]
     \<and> registry p' = (registry p)(a \<mapsto> aw)
     \<and> appWorkers p' \<noteq> None
     \<and> config p' = config p"
proof -
  define p1 where "p1 = p\<lparr>world := w1, calls := calls p @ [Life_call a]\<rparr>"
  have p1: "config p1 = config p" "world p1 = w1" "calls p1 = calls p @ [Life_call a]"
    "registry p1 = registry p" "chans p1 = chans p"
    by (simp_all add: p1_def)
  from assms(4) have reg: "registry p a = None" by (simp add: getApplicationWorker_registry)
  have 1: "loop_app rt a p = loop_create rt a p1"
    unfolding p1_def by (rule loop_app_create [OF assms(1,3) reg assms(5)])
  obtain e w4 where ad: "catacomb_Add rt (AppWorker aw) w3 = (e, w4)" by force
  from assms p1 have ag1: "ApplicationGetter (config p1) = Some ag"
    and c1: "ApplicationConfig ag a (world p1) = (Inr cfg, w2)"
    and aw1: "aw = \<lparr>application = a, appRemoved = chans p1,
            jujuManagedUnits = GetBool cfg (caas_JujuManagedUnits rt) False\<rparr>"
    by simp_all
  from loop_create_ok [OF ag1 c1 aw1 assms(8) ad] obtain p' where
    "loop_create rt a p1 = (Running, p')"
    "calls p' = calls p1 @ [ApplicationConfig_call a,
         newApplicationWorker_call a (chans p1) (GetBool cfg (caas_JujuManagedUnits rt) False),
         Add_call (AppWorker aw)]"
    "registry p' = (registry p1)(a \<mapsto> aw)" "appWorkers p' \<noteq> None" "config p' = config p1"
    by blast
  with 1 p1 show ?thesis by simp
qed

subsection \<open>The calls of a run\<close>

lemma removed_calls_upd [simp]: "removed_calls rt a (p\<lparr>calls := l\<rparr>) = removed_calls rt a p"
  by (simp add: removed_calls_def
      cong: option.case_cong prod.case_cong removal_select.case_cong)

lemma created_calls_upd [simp]: "created_calls rt a (p\<lparr>calls := l\<rparr>) = created_calls rt a p"
  by (simp add: created_calls_def Let_def
      cong: option.case_cong prod.case_cong sum.case_cong)

lemma loop_removed_calls: "calls (snd (loop_removed rt a p)) = calls p @ removed_calls rt a p"
proof (cases "ContainerBroker (config p)")
  case None
  then show ?thesis by (simp add: loop_removed_def removed_calls_def)
next
  case (Some cb)
  note cb = this
  obtain e1 w2 where u: "UnexposeService cb a (world p) = (e1, w2)" by force
  show ?thesis
  proof (cases e1)
    case (Some e)
    with loop_removed_unexpose_fails [OF cb, of a e w2 rt] u cb
    show ?thesis by (simp add: removed_calls_def)
  next
    case None
    note e1 = this
    obtain e2 w3 where d: "DeleteService cb a w2 = (e2, w3)" by force
    show ?thesis
    proof (cases e2)
      case (Some e)
      with loop_removed_delete_fails [OF cb, of a w2 e w3 rt] u e1 d cb
      show ?thesis by (simp add: removed_calls_def)
    next
      case None
      note e2 = this
      show ?thesis
      proof (cases "registry p a")
        case None
        with loop_removed_untracked [OF cb, of a w2 w3 rt] u e1 d e2 cb
        show ?thesis by (simp add: removed_calls_def)
      next
        case (Some w)
        obtain sel w4 where s: "select_appRemoved rt w w3 = (sel, w4)" by force
        obtain e w5 where st: "worker_Stop rt (AppWorker w) w4 = (e, w5)" by force
        from loop_removed_tracked [OF cb _ _ Some s st, of w2] u e1 d e2
        have "calls (snd (loop_removed rt a p)) = calls p @ [UnexposeService_call a, DeleteService_call a,
             (if sel = Sent then appRemoved_send (appRemoved w) else appRemoved_close (appRemoved w)),
             Stop_call (AppWorker w)] @ (case e of Some err \<Rightarrow> [Errorf_call a err] | None \<Rightarrow> [])"
          by simp
        moreover have "removed_calls rt a p = [UnexposeService_call a, DeleteService_call a,
             (if sel = Sent then appRemoved_send (appRemoved w) else appRemoved_close (appRemoved w)),
             Stop_call (AppWorker w)] @ (case e of Some err \<Rightarrow> [Errorf_call a err] | None \<Rightarrow> [])"
          using cb u e1 d e2 Some s st
          by (cases sel; cases e) (simp_all add: removed_calls_def)
        ultimately show ?thesis by simp
      qed
    qed
  qed
qed

lemma loop_create_calls: "calls (snd (loop_create rt a p)) = calls p @ created_calls rt a p"
proof (cases "ApplicationGetter (config p)")
  case None
  then show ?thesis by (simp add: loop_create_def created_calls_def)
next
  case (Some ag)
  note ag = this
  obtain r w2 where c: "ApplicationConfig ag a (world p) = (r, w2)" by force
  show ?thesis
  proof (cases r)
    case (Inl e)
    with loop_create_config_fails [OF ag, of a e w2 rt] c ag
    show ?thesis by (simp add: created_calls_def)
  next
    case (Inr cfg)
    define aw where "aw = \<lparr>application = a, appRemoved = chans p,
            jujuManagedUnits = GetBool cfg (caas_JujuManagedUnits rt) False\<rparr>"
    obtain e3 w3 where st: "applicationWorker_start rt aw w2 = (e3, w3)" by force
    show ?thesis
    proof (cases e3)
      case (Some e)
      with loop_create_start_fails [OF ag, of a cfg w2 rt e w3] c Inr st ag
      show ?thesis by (simp add: created_calls_def aw_def Let_def)
    next
      case None
      obtain e4 w4 where ad: "catacomb_Add rt (AppWorker aw) w3 = (e4, w4)" by force
      from loop_create_ok [OF ag _ aw_def _ ad, of w2] c Inr st None
      have "calls (snd (loop_create rt a p)) = calls p @ [ApplicationConfig_call a,
         newApplicationWorker_call a (chans p) (GetBool cfg (caas_JujuManagedUnits rt) False),
         Add_call (AppWorker aw)]"
        by auto
      moreover have "created_calls rt a p = [ApplicationConfig_call a,
         newApplicationWorker_call a (chans p) (GetBool cfg (caas_JujuManagedUnits rt) False),
         Add_call (AppWorker aw)]"
        using ag c Inr st None by (simp add: created_calls_def aw_def Let_def)
      ultimately show ?thesis by simp
    qed
  qed
qed

lemma loop_app_calls: "calls (snd (loop_app rt a p)) = calls p @ name_calls rt a p"
proof (cases "LifeGetter (config p)")
  case None
  then show ?thesis by (simp add: loop_app_def name_calls_def)
next
  case (Some lg)
  note lg = this
  obtain r w1 where l: "Life lg a (world p) = (r, w1)" by force
  let ?p1 = "p\<lparr>world := w1, calls := calls p @ [Life_call a]\<rparr>"
  show ?thesis
  proof (cases r)
    case (Inl e)
    show ?thesis
    proof (cases "IsNotFound e")
      case False
      with loop_app_life_fails [OF lg, of a e w1 rt] l Inl lg
      show ?thesis by (simp add: name_calls_def)
    next
      case True
      with l Inl have "loop_app rt a p = loop_removed rt a ?p1"
        by (simp add: loop_app_removed [OF lg])
      then have "calls (snd (loop_app rt a p)) = calls ?p1 @ removed_calls rt a ?p1"
        by (simp only: loop_removed_calls)
      also have "removed_calls rt a ?p1 = removed_calls rt a (p\<lparr>world := w1\<rparr>)"
        by (rule removed_calls_upd)
      finally show ?thesis using lg l Inl True by (simp add: name_calls_def)
    qed
  next
    case (Inr lf)
    show ?thesis
    proof (cases "registry p a \<noteq> None \<or> lf = Dead")
      case True
      from loop_app_noop [OF lg _ True, of w1 rt] l Inr lg True
      show ?thesis by (simp add: name_calls_def)
    next
      case False
      then have f: "registry p a = None" "lf \<noteq> Dead" by auto
      from l Inr have "loop_app rt a p = loop_create rt a ?p1"
        by (simp add: loop_app_create [OF lg _ f])
      then have "calls (snd (loop_app rt a p)) = calls ?p1 @ created_calls rt a ?p1"
        by (simp only: loop_create_calls)
      also have "created_calls rt a ?p1 = created_calls rt a (p\<lparr>world := w1\<rparr>)"
        by (rule created_calls_upd)
      finally show ?thesis using lg l Inr f by (simp add: name_calls_def)
    qed
  qed
qed

lemma loop_apps_calls: "calls (snd (loop_apps rt apps p)) = calls p @ batch_calls rt apps p"
proof (induction apps arbitrary: p)
  case Nil
  show ?case by simp
next
  case (Cons a apps)
  obtain o1 p1 where s: "loop_app rt a p = (o1, p1)" by force
  from loop_app_calls [of rt a p] s have c: "calls p1 = calls p @ name_calls rt a p" by simp
  show ?case
  proof (cases o1)
    case Running
    with s c Cons.IH [of p1] show ?thesis by simp
  next
    case (Return e)
    with s c show ?thesis by simp
  next
    case Panic
    with s c show ?thesis by simp
  qed
qed

lemma loop_select_calls: "calls (snd (loop_select rt evs p)) = calls p @ run_calls rt evs p"
proof (induction evs arbitrary: p)
  case Nil
  show ?case by simp
next
  case (Cons ev evs)
  show ?case
  proof (cases ev)
    case (Changes apps)
    let ?p0 = "log_call (Changes_recv apps) p"
    obtain o1 p1 where s: "loop_apps rt apps ?p0 = (o1, p1)" by force
    from loop_apps_calls [of rt apps ?p0] s
    have c: "calls p1 = calls p @ Changes_recv apps # batch_calls rt apps ?p0"
      by (simp add: log_call_def)
    show ?thesis
    proof (cases o1)
      case Running
      with s c Changes Cons.IH [of p1] show ?thesis by simp
    next
      case (Return e)
      with s c Changes show ?thesis by simp
    next
      case Panic
      with s c Changes show ?thesis by simp
    qed
  qed simp_all
qed

text \<open>The definitions that a run on concrete collaborators unfolds.\<close>

lemmas run_defs = loop_def invoke_def log_call_def loop_app_def loop_create_def loop_removed_def
  select_removal_def make_chan_def
  newApplicationWorker_def saveApplicationWorker_def deleteApplicationWorker_def
  map_assign_def map_delete_def
  getApplicationWorker_def map_len_zero_def map_index_def GetBool_def IsNotFound_def Trace_def
  p0_def cfg0_def rt0_def ag0_def lg0_def cb0_def aw0_def p_tracked_def rt_dying_def
  p_unexpose_fails_def p_delete_fails_def p_config_fails_def p_dead_def p_alive_def
  rt_start_fails_def rt_add_fails_def

lemmas calls_defs = removed_calls_def created_calls_def name_calls_def registry_def

subsection \<open>The registry on a map that was never made\<close>

text \<open>
  Claim C9. The three operations of the registry work on the nil map: a lookup of a
  name that was never saved finds nothing, whether the map is nil, empty or holds other
  names; deleting a name that is absent changes nothing; saving never panics, makes the
  map when it is nil, and the name saved is then found while every other name is found
  as before.
\<close>

theorem registry_total:
  "(appWorkers p = None \<longrightarrow> getApplicationWorker n p = None)
   \<and> (appWorkers p = Some Map.empty \<longrightarrow> getApplicationWorker n p = None)
   \<and> (\<forall>m. appWorkers p = Some m \<and> m n = None \<longrightarrow> getApplicationWorker n p = None)
   \<and> (appWorkers p = None \<longrightarrow> deleteApplicationWorker n p = p)
   \<and> (getApplicationWorker n p = None \<longrightarrow> deleteApplicationWorker n p = p)
   \<and> (appWorkers p = None \<longrightarrow>
        saveApplicationWorker n aw p = Some (p\<lparr>appWorkers := Some [n \<mapsto> aw]\<rparr>))
   \<and> (\<exists>p'. saveApplicationWorker n aw p = Some p' \<and> appWorkers p' \<noteq> None
          \<and> getApplicationWorker n p' = Some aw
          \<and> (\<forall>k. k \<noteq> n \<longrightarrow> getApplicationWorker k p' = getApplicationWorker k p))"
proof (intro conjI)
  show "appWorkers p = None \<longrightarrow> getApplicationWorker n p = None"
    by (simp add: get_absent registry_def)
  show "appWorkers p = Some Map.empty \<longrightarrow> getApplicationWorker n p = None"
    by (simp add: get_absent registry_def)
  show "\<forall>m. appWorkers p = Some m \<and> m n = None \<longrightarrow> getApplicationWorker n p = None"
    by (simp add: get_absent registry_def)
  show "appWorkers p = None \<longrightarrow> deleteApplicationWorker n p = p"
    by (simp add: deleteApplicationWorker_def map_delete_def)
  show "getApplicationWorker n p = None \<longrightarrow> deleteApplicationWorker n p = p"
    by (simp add: delete_absent)
  show "appWorkers p = None \<longrightarrow>
      saveApplicationWorker n aw p = Some (p\<lparr>appWorkers := Some [n \<mapsto> aw]\<rparr>)"
    by (simp add: save_nil)
  from save_Some [of n aw p] obtain p' where
    p': "saveApplicationWorker n aw p = Some p'" "registry p' = (registry p)(n \<mapsto> aw)"
      "appWorkers p' \<noteq> None" by blast
  show "\<exists>p'. saveApplicationWorker n aw p = Some p' \<and> appWorkers p' \<noteq> None
          \<and> getApplicationWorker n p' = Some aw
          \<and> (\<forall>k. k \<noteq> n \<longrightarrow> getApplicationWorker k p' = getApplicationWorker k p)"
    using p' by (simp add: getApplicationWorker_registry)
qed

theorem registry_total_witness:
  "appWorkers (p0 0) = None
   \<and> getApplicationWorker ''app1'' (p0 0) = None
   \<and> deleteApplicationWorker ''app1'' (p0 0) = p0 0
   \<and> saveApplicationWorker ''app1'' aw0 (p0 0) = Some ((p0 0)\<lparr>appWorkers := Some [''app1'' \<mapsto> aw0]\<rparr>)
   \<and> appWorkers ((p0 0)\<lparr>appWorkers := Some Map.empty\<rparr>) = Some Map.empty
   \<and> getApplicationWorker ''app1'' ((p0 0)\<lparr>appWorkers := Some Map.empty\<rparr>) = None
   \<and> getApplicationWorker ''app2'' ((p0 0)\<lparr>appWorkers := Some [''app1'' \<mapsto> aw0]\<rparr>) = None
   \<and> deleteApplicationWorker ''app2'' ((p0 0)\<lparr>appWorkers := Some [''app1'' \<mapsto> aw0]\<rparr>)
       = (p0 0)\<lparr>appWorkers := Some [''app1'' \<mapsto> aw0]\<rparr>"
proof -
  have nil: "appWorkers (p0 0) = None" by (simp add: p0_def)
  have e: "appWorkers ((p0 0)\<lparr>appWorkers := Some Map.empty\<rparr>) = Some Map.empty" by simp
  have a: "appWorkers ((p0 0)\<lparr>appWorkers := Some [''app1'' \<mapsto> aw0]\<rparr>) = Some [''app1'' \<mapsto> aw0]
     \<and> [''app1'' \<mapsto> aw0] ''app2'' = None" by simp
  note t1 = registry_total [of "p0 0" "''app1''" aw0]
  note t2 = registry_total [of "(p0 0)\<lparr>appWorkers := Some Map.empty\<rparr>" "''app1''" aw0]
  note t3 = registry_total [of "(p0 0)\<lparr>appWorkers := Some [''app1'' \<mapsto> aw0]\<rparr>" "''app2''" aw0]
  from t1 nil have c1: "getApplicationWorker ''app1'' (p0 0) = None"
    "deleteApplicationWorker ''app1'' (p0 0) = p0 0"
    "saveApplicationWorker ''app1'' aw0 (p0 0) = Some ((p0 0)\<lparr>appWorkers := Some [''app1'' \<mapsto> aw0]\<rparr>)"
    by blast+
  from t2 e have c2: "getApplicationWorker ''app1'' ((p0 0)\<lparr>appWorkers := Some Map.empty\<rparr>) = None"
    by blast
  from t3 a have c3:
    "getApplicationWorker ''app2'' ((p0 0)\<lparr>appWorkers := Some [''app1'' \<mapsto> aw0]\<rparr>) = None"
    by blast
  with t3 have c4: "deleteApplicationWorker ''app2'' ((p0 0)\<lparr>appWorkers := Some [''app1'' \<mapsto> aw0]\<rparr>)
       = (p0 0)\<lparr>appWorkers := Some [''app1'' \<mapsto> aw0]\<rparr>" by blast
  from nil e c1 c2 c3 c4 show ?thesis by blast
qed

subsection \<open>Validation\<close>

lemma first_missing:
  "(case (if c then [x] else []) @ rest of [] \<Rightarrow> None | f # fs \<Rightarrow> Some (g f))
     = (if c then Some (g x) else (case rest of [] \<Rightarrow> None | f # fs \<Rightarrow> Some (g f)))"
  by simp

lemma last_missing:
  "(case (if c then [x] else []) of [] \<Rightarrow> None | f # fs \<Rightarrow> Some (g f))
     = (if c then Some (g x) else None)"
  by simp

lemma Validate_missing:
  "Validate cfg = (case missing_fields cfg of [] \<Rightarrow> None | f # fs \<Rightarrow> Some (NotValid (''missing '' @ f)))"
  unfolding Validate_def missing_fields_def first_missing last_missing
  by (simp split del: if_split cong: if_cong)

text \<open>
  Claim C4. \<open>NewWorker\<close> fails fast: validation succeeds exactly when all eight
  capabilities are there; when one is missing, \<open>NewWorker\<close> returns no worker and the
  traced not-valid error that names the first missing field, and no task has been
  started; when none is missing it returns the provisioner with its task started and no
  error.
\<close>

theorem NewWorker_fails_fast:
  "(Validate cfg = None \<longleftrightarrow>
      ApplicationGetter cfg \<noteq> None \<and> ApplicationUpdater cfg \<noteq> None \<and> ServiceBroker cfg \<noteq> None
      \<and> ContainerBroker cfg \<noteq> None \<and> PodSpecGetter cfg \<noteq> None \<and> LifeGetter cfg \<noteq> None
      \<and> UnitGetter cfg \<noteq> None \<and> UnitUpdater cfg \<noteq> None)
   \<and> NewWorker cfg w =
      (case missing_fields cfg of
         [] \<Rightarrow> (Some \<lparr>catacomb = catacomb_zero\<lparr>invoked := True\<rparr>, config = cfg, appWorkers = None,
                      world = w, calls = [], chans = 0\<rparr>, None)
       | f # fs \<Rightarrow> (None, Some (Trace (NotValid (''missing '' @ f)))))"
proof
  show "Validate cfg = None \<longleftrightarrow>
      ApplicationGetter cfg \<noteq> None \<and> ApplicationUpdater cfg \<noteq> None \<and> ServiceBroker cfg \<noteq> None
      \<and> ContainerBroker cfg \<noteq> None \<and> PodSpecGetter cfg \<noteq> None \<and> LifeGetter cfg \<noteq> None
      \<and> UnitGetter cfg \<noteq> None \<and> UnitUpdater cfg \<noteq> None"
    by (simp add: Validate_def)
  show "NewWorker cfg w =
      (case missing_fields cfg of
         [] \<Rightarrow> (Some \<lparr>catacomb = catacomb_zero\<lparr>invoked := True\<rparr>, config = cfg, appWorkers = None,
                      world = w, calls = [], chans = 0\<rparr>, None)
       | f # fs \<Rightarrow> (None, Some (Trace (NotValid (''missing '' @ f)))))"
    by (cases "missing_fields cfg")
       (simp_all add: NewWorker_def Validate_missing catacomb_Invoke_def)
qed

theorem NewWorker_fails_fast_witness:
  "NewWorker cfg0 0 = (Some (p0 0), None)
   \<and> invoked (catacomb (p0 0))
   \<and> NewWorker (cfg0\<lparr>LifeGetter := None, UnitUpdater := None\<rparr>) 0
       = (None, Some (Traced (NotValid ''missing LifeGetter'')))"
  using NewWorker_fails_fast [of cfg0 0]
    NewWorker_fails_fast [of "cfg0\<lparr>LifeGetter := None, UnitUpdater := None\<rparr>" 0]
  by (simp add: missing_fields_def cfg0_def p0_def Trace_def)

subsection \<open>A closed watcher channel\<close>




subsection \<open>An application that is gone\<close>

text \<open>
  Claim C1. When \<open>Life\<close> reports a name as not found, the body of the loop calls
  \<open>UnexposeService\<close> for that name right after, whatever the registry holds. When that
  call fails nothing more is called and the loop returns the traced error. Otherwise
  \<open>DeleteService\<close> is called next; when it fails nothing more is called and the loop
  returns the traced error. Otherwise the loop goes on, and the calls on the broker for
  this observation are exactly the one unexpose followed by the one delete.
\<close>

theorem notfound_cleanup:
  assumes lg: "LifeGetter (config p) = Some lg"
    and cb: "ContainerBroker (config p) = Some cb"
    and life: "Life lg a (world p) = (Inl err, w1)"
    and nf: "IsNotFound err"
    and run: "loop_app rt a p = (out, p')"
  shows "\<exists>log. calls p' = calls p @ Life_call a # log \<and>
     (case UnexposeService cb a w1 of
        (Some e, w2) \<Rightarrow> log = [UnexposeService_call a] \<and> out = Return (Trace e)
      | (None, w2) \<Rightarrow>
         (case DeleteService cb a w2 of
            (Some e, w3) \<Rightarrow>
               log = [UnexposeService_call a, DeleteService_call a] \<and> out = Return (Trace e)
          | (None, w3) \<Rightarrow>
               out = Running
               \<and> filter is_broker_call log = [UnexposeService_call a, DeleteService_call a]
               \<and> (\<exists>rest. log = UnexposeService_call a # DeleteService_call a # rest)))"
proof -
  let ?p1 = "p\<lparr>world := w1, calls := calls p @ [Life_call a]\<rparr>"
  have cb1: "ContainerBroker (config ?p1) = Some cb" using cb by simp
  from loop_app_removed [OF lg life nf] run
  have r: "loop_removed rt a ?p1 = (out, p')" by simp
  obtain e1 w2 where u: "UnexposeService cb a w1 = (e1, w2)" by force
  show ?thesis
  proof (cases e1)
    case (Some e)
    with loop_removed_unexpose_fails [OF cb1, of a e w2 rt] u r
    show ?thesis by auto
  next
    case None
    note e1 = this
    obtain e2 w3 where d: "DeleteService cb a w2 = (e2, w3)" by force
    show ?thesis
    proof (cases e2)
      case (Some e)
      with loop_removed_delete_fails [OF cb1, of a w2 e w3 rt] u e1 d r
      show ?thesis by auto
    next
      case None
      note e2 = this
      show ?thesis
      proof (cases "registry p a")
        case None
        with loop_removed_untracked [OF cb1, of a w2 w3 rt] u e1 d e2 r
        show ?thesis by auto
      next
        case (Some w)
        obtain sel w4 where s: "select_appRemoved rt w w3 = (sel, w4)" by force
        obtain e w5 where st: "worker_Stop rt (AppWorker w) w4 = (e, w5)" by force
        have "registry ?p1 a = Some w" using Some by simp
        from loop_removed_tracked [OF cb1 _ _ this s st, of w2] u e1 d e2 r
        show ?thesis by (auto split: option.splits)
      qed
    qed
  qed
qed

theorem notfound_cleanup_witness:
  "LifeGetter (config (p0 1)) = Some lg0
   \<and> ContainerBroker (config (p0 1)) = Some cb0
   \<and> Life lg0 ''app1'' (world (p0 1)) = (Inl (NotFound ''app1''), 2)
   \<and> IsNotFound (NotFound ''app1'')
   \<and> getApplicationWorker ''app1'' (p0 1) = None
   \<and> (\<exists>log. calls (snd (loop_app rt0 ''app1'' (p0 1))) = calls (p0 1) @ Life_call ''app1'' # log
         \<and> fst (loop_app rt0 ''app1'' (p0 1)) = Running
         \<and> filter is_broker_call log = [UnexposeService_call ''app1'', DeleteService_call ''app1''])
   \<and> getApplicationWorker ''app1'' (p_tracked 1) = Some aw0
   \<and> (\<exists>log. calls (snd (loop_app rt0 ''app1'' (p_tracked 1)))
           = calls (p_tracked 1) @ Life_call ''app1'' # log
         \<and> fst (loop_app rt0 ''app1'' (p_tracked 1)) = Running
         \<and> filter is_broker_call log = [UnexposeService_call ''app1'', DeleteService_call ''app1''])
   \<and> (\<exists>log. calls (snd (loop_app rt0 ''app1'' (p_unexpose_fails 1)))
           = calls (p_unexpose_fails 1) @ Life_call ''app1'' # log
         \<and> fst (loop_app rt0 ''app1'' (p_unexpose_fails 1)) = Return (Traced (ErrorNew ''unexpose failed''))
         \<and> log = [UnexposeService_call ''app1''])
   \<and> (\<exists>log. calls (snd (loop_app rt0 ''app1'' (p_delete_fails 1)))
           = calls (p_delete_fails 1) @ Life_call ''app1'' # log
         \<and> fst (loop_app rt0 ''app1'' (p_delete_fails 1)) = Return (Traced (ErrorNew ''delete failed''))
         \<and> log = [UnexposeService_call ''app1'', DeleteService_call ''app1''])"
proof -
  have nf: "IsNotFound (NotFound ''app1'')" by (simp add: IsNotFound_def)
  have r: "\<And>p. loop_app rt0 ''app1'' p
      = (fst (loop_app rt0 ''app1'' p), snd (loop_app rt0 ''app1'' p))" by simp
  have h: "LifeGetter (config (p0 1)) = Some lg0" "ContainerBroker (config (p0 1)) = Some cb0"
    "Life lg0 ''app1'' (world (p0 1)) = (Inl (NotFound ''app1''), 2)"
    "getApplicationWorker ''app1'' (p0 1) = None"
    by (simp_all add: p0_def cfg0_def lg0_def getApplicationWorker_def map_len_zero_def)
  have t: "LifeGetter (config (p_tracked 1)) = Some lg0"
    "ContainerBroker (config (p_tracked 1)) = Some cb0"
    "Life lg0 ''app1'' (world (p_tracked 1)) = (Inl (NotFound ''app1''), 2)"
    "getApplicationWorker ''app1'' (p_tracked 1) = Some aw0"
    by (simp_all add: p_tracked_def p0_def cfg0_def lg0_def getApplicationWorker_def
        map_len_zero_def map_index_def)
  have u: "LifeGetter (config (p_unexpose_fails 1)) = Some lg0"
    "ContainerBroker (config (p_unexpose_fails 1))
       = Some (cb0\<lparr>UnexposeService := (\<lambda>a w. (Some (ErrorNew ''unexpose failed''), w))\<rparr>)"
    "Life lg0 ''app1'' (world (p_unexpose_fails 1)) = (Inl (NotFound ''app1''), 2)"
    by (simp_all add: p_unexpose_fails_def p0_def cfg0_def lg0_def)
  have d: "LifeGetter (config (p_delete_fails 1)) = Some lg0"
    "ContainerBroker (config (p_delete_fails 1))
       = Some (cb0\<lparr>DeleteService := (\<lambda>a w. (Some (ErrorNew ''delete failed''), w))\<rparr>)"
    "Life lg0 ''app1'' (world (p_delete_fails 1)) = (Inl (NotFound ''app1''), 2)"
    by (simp_all add: p_delete_fails_def p0_def cfg0_def lg0_def)
  from notfound_cleanup [OF h(1,2,3) nf r]
  have 1: "\<exists>log. calls (snd (loop_app rt0 ''app1'' (p0 1))) = calls (p0 1) @ Life_call ''app1'' # log
         \<and> fst (loop_app rt0 ''app1'' (p0 1)) = Running
         \<and> filter is_broker_call log = [UnexposeService_call ''app1'', DeleteService_call ''app1'']"
    by (auto simp: cb0_def)
  from notfound_cleanup [OF t(1,2,3) nf r]
  have 2: "\<exists>log. calls (snd (loop_app rt0 ''app1'' (p_tracked 1)))
           = calls (p_tracked 1) @ Life_call ''app1'' # log
         \<and> fst (loop_app rt0 ''app1'' (p_tracked 1)) = Running
         \<and> filter is_broker_call log = [UnexposeService_call ''app1'', DeleteService_call ''app1'']"
    by (auto simp: cb0_def)
  from notfound_cleanup [OF u(1,2,3) nf r]
  have 3: "\<exists>log. calls (snd (loop_app rt0 ''app1'' (p_unexpose_fails 1)))
           = calls (p_unexpose_fails 1) @ Life_call ''app1'' # log
         \<and> fst (loop_app rt0 ''app1'' (p_unexpose_fails 1)) = Return (Traced (ErrorNew ''unexpose failed''))
         \<and> log = [UnexposeService_call ''app1'']"
    by (auto simp: cb0_def Trace_def)
  from notfound_cleanup [OF d(1,2,3) nf r]
  have 4: "\<exists>log. calls (snd (loop_app rt0 ''app1'' (p_delete_fails 1)))
           = calls (p_delete_fails 1) @ Life_call ''app1'' # log
         \<and> fst (loop_app rt0 ''app1'' (p_delete_fails 1)) = Return (Traced (ErrorNew ''delete failed''))
         \<and> log = [UnexposeService_call ''app1'', DeleteService_call ''app1'']"
    by (auto simp: cb0_def Trace_def)
  from h nf t(4) 1 2 3 4 show ?thesis by blast
qed

subsection \<open>The removal handshake\<close>

text \<open>
  Claim C2. When the name that is not found has a registered worker and the broker calls
  succeed, the loop does, in this order: one thing to the worker's removal channel (the
  send when the send won the select, the close when the worker's death signal won),
  then the stop of the worker, then, when the stop failed, one line in the log. It does
  not return: the loop goes on, and the name is out of the registry whatever the stop
  returned, while every other name stays as it was. In any run of the loop of a
  provisioner made by \<open>NewWorker\<close>, at most one send or close is ever done to a
  removal channel.
\<close>

theorem removal_handshake:
  "(LifeGetter (config p) = Some lg \<and> ContainerBroker (config p) = Some cb
      \<and> Life lg a (world p) = (Inl err, w1) \<and> IsNotFound err
      \<and> UnexposeService cb a w1 = (None, w2) \<and> DeleteService cb a w2 = (None, w3)
      \<and> getApplicationWorker a p = Some w
      \<and> select_appRemoved rt w w3 = (sel, w4) \<and> worker_Stop rt (AppWorker w) w4 = (e, w5)
    \<longrightarrow> (\<exists>p'. loop_app rt a p = (Running, p') \<and> world p' = w5
          \<and> calls p' = calls p @ [Life_call a, UnexposeService_call a, DeleteService_call a,
               (case sel of Sent \<Rightarrow> appRemoved_send (appRemoved w)
                          | WorkerDying \<Rightarrow> appRemoved_close (appRemoved w)),
               Stop_call (AppWorker w)]
               @ (case e of None \<Rightarrow> [] | Some serr \<Rightarrow> [Errorf_call a serr])
          \<and> getApplicationWorker a p' = None
          \<and> (\<forall>k. k \<noteq> a \<longrightarrow> getApplicationWorker k p' = getApplicationWorker k p)))
   \<and> (NewWorker cfg w0 = (Some q, None) \<and> loop rt evs q = (out, q')
        \<longrightarrow> (\<forall>ch. removals ch (calls q') \<le> 1))"
proof (intro conjI impI)
  assume a: "LifeGetter (config p) = Some lg \<and> ContainerBroker (config p) = Some cb
      \<and> Life lg a (world p) = (Inl err, w1) \<and> IsNotFound err
      \<and> UnexposeService cb a w1 = (None, w2) \<and> DeleteService cb a w2 = (None, w3)
      \<and> getApplicationWorker a p = Some w
      \<and> select_appRemoved rt w w3 = (sel, w4) \<and> worker_Stop rt (AppWorker w) w4 = (e, w5)"
  then obtain p' where p': "loop_app rt a p = (Running, p')" "world p' = w5"
    "calls p' = calls p @ [Life_call a, UnexposeService_call a, DeleteService_call a,
               (case sel of Sent \<Rightarrow> appRemoved_send (appRemoved w)
                          | WorkerDying \<Rightarrow> appRemoved_close (appRemoved w)),
               Stop_call (AppWorker w)]
               @ (case e of None \<Rightarrow> [] | Some serr \<Rightarrow> [Errorf_call a serr])"
    "registry p' = (registry p)(a := None)"
    using loop_app_tracked_removed [of p lg cb a err w1 w2 w3 w rt sel w4 e w5] by blast
  from p'(4) have "getApplicationWorker a p' = None"
    "\<forall>k. k \<noteq> a \<longrightarrow> getApplicationWorker k p' = getApplicationWorker k p"
    by (simp_all add: getApplicationWorker_registry)
  with p'(1,2,3) show "\<exists>p'. loop_app rt a p = (Running, p') \<and> world p' = w5
          \<and> calls p' = calls p @ [Life_call a, UnexposeService_call a, DeleteService_call a,
               (case sel of Sent \<Rightarrow> appRemoved_send (appRemoved w)
                          | WorkerDying \<Rightarrow> appRemoved_close (appRemoved w)),
               Stop_call (AppWorker w)]
               @ (case e of None \<Rightarrow> [] | Some serr \<Rightarrow> [Errorf_call a serr])
          \<and> getApplicationWorker a p' = None
          \<and> (\<forall>k. k \<noteq> a \<longrightarrow> getApplicationWorker k p' = getApplicationWorker k p)"
    by blast
next
  assume a: "NewWorker cfg w0 = (Some q, None) \<and> loop rt evs q = (out, q')"
  then have "NewWorker cfg w0 = (Some q, None)" and l: "loop rt evs q = (out, q')" by simp_all
  then have "handshake_inv q" by (simp add: NewWorker_inv)
  with loop_effect [OF l] have "handshake_inv q'" by simp
  then show "\<forall>ch. removals ch (calls q') \<le> 1" by (simp add: handshake_inv_def)
qed

theorem removal_handshake_witness:
  "LifeGetter (config (p_tracked 1)) = Some lg0 \<and> ContainerBroker (config (p_tracked 1)) = Some cb0
   \<and> Life lg0 ''app1'' (world (p_tracked 1)) = (Inl (NotFound ''app1''), 2)
   \<and> IsNotFound (NotFound ''app1'')
   \<and> UnexposeService cb0 ''app1'' 2 = (None, 2) \<and> DeleteService cb0 ''app1'' 2 = (None, 2)
   \<and> getApplicationWorker ''app1'' (p_tracked 1) = Some aw0
   \<and> select_appRemoved rt0 aw0 2 = (Sent, 2) \<and> worker_Stop rt0 (AppWorker aw0) 2 = (None, 2)
   \<and> (\<exists>p'. loop_app rt0 ''app1'' (p_tracked 1) = (Running, p')
         \<and> calls p' = [Life_call ''app1'', UnexposeService_call ''app1'',
              DeleteService_call ''app1'', appRemoved_send 0, Stop_call (AppWorker aw0)]
         \<and> getApplicationWorker ''app1'' p' = None)
   \<and> select_appRemoved rt_dying aw0 2 = (WorkerDying, 2)
   \<and> worker_Stop rt_dying (AppWorker aw0) 2 = (Some (ErrorNew ''stop failed''), 2)
   \<and> (\<exists>p'. loop_app rt_dying ''app1'' (p_tracked 1) = (Running, p')
         \<and> calls p' = [Life_call ''app1'', UnexposeService_call ''app1'',
              DeleteService_call ''app1'', appRemoved_close 0, Stop_call (AppWorker aw0),
              Errorf_call ''app1'' (ErrorNew ''stop failed'')]
         \<and> getApplicationWorker ''app1'' p' = None)
   \<and> NewWorker cfg0 0 = (Some (p0 0), None)
   \<and> removals 0 (calls (snd (loop rt0 [Changes [''app1''], Changes [''app1'']] (p0 0)))) = 1
   \<and> (\<forall>ch. removals ch (calls (snd (loop rt0 [Changes [''app1''], Changes [''app1'']] (p0 0)))) \<le> 1)"
proof -
  have h: "LifeGetter (config (p_tracked 1)) = Some lg0 \<and> ContainerBroker (config (p_tracked 1)) = Some cb0
   \<and> Life lg0 ''app1'' (world (p_tracked 1)) = (Inl (NotFound ''app1''), 2)
   \<and> IsNotFound (NotFound ''app1'')
   \<and> UnexposeService cb0 ''app1'' 2 = (None, 2) \<and> DeleteService cb0 ''app1'' 2 = (None, 2)
   \<and> getApplicationWorker ''app1'' (p_tracked 1) = Some aw0"
    by (simp add: run_defs)
  have s1: "select_appRemoved rt0 aw0 2 = (Sent, 2) \<and> worker_Stop rt0 (AppWorker aw0) 2 = (None, 2)"
    by (simp add: rt0_def)
  have s2: "select_appRemoved rt_dying aw0 2 = (WorkerDying, 2)
     \<and> worker_Stop rt_dying (AppWorker aw0) 2 = (Some (ErrorNew ''stop failed''), 2)"
    by (simp add: rt_dying_def rt0_def)
  have n: "NewWorker cfg0 0 = (Some (p0 0), None)"
    by (simp add: NewWorker_def Validate_def catacomb_Invoke_def p0_def cfg0_def)
  have cp: "\<And>w. calls (p_tracked w) = []" "appRemoved aw0 = 0"
    by (simp_all add: p_tracked_def p0_def aw0_def)
  define q where "q = loop rt0 [Changes [''app1''], Changes [''app1'']] (p0 0)"
  have q: "loop rt0 [Changes [''app1''], Changes [''app1'']] (p0 0) = (fst q, snd q)"
    by (simp add: q_def)
  have c: "removals 0 (calls (snd q)) = 1"
    unfolding q_def by (simp add: run_defs removals_def)
  from removal_handshake [of "p_tracked 1" lg0 cb0 "''app1''" "NotFound ''app1''" 2 2 2 aw0
      rt0 Sent 2 None 2 cfg0 0 "p0 0" "[Changes [''app1''], Changes [''app1'']]" "fst q" "snd q"]
    h s1 n q
  have 1: "\<exists>p'. loop_app rt0 ''app1'' (p_tracked 1) = (Running, p')
         \<and> calls p' = [Life_call ''app1'', UnexposeService_call ''app1'',
              DeleteService_call ''app1'', appRemoved_send 0, Stop_call (AppWorker aw0)]
         \<and> getApplicationWorker ''app1'' p' = None"
    and 3: "\<forall>ch. removals ch (calls (snd q)) \<le> 1"
    by (auto simp: cp)
  from removal_handshake [of "p_tracked 1" lg0 cb0 "''app1''" "NotFound ''app1''" 2 2 2 aw0
      rt_dying WorkerDying 2 "Some (ErrorNew ''stop failed'')" 2 cfg0 0 "p0 0"
      "[Changes [''app1''], Changes [''app1'']]" "fst q" "snd q"]
    h s2
  have 2: "\<exists>p'. loop_app rt_dying ''app1'' (p_tracked 1) = (Running, p')
         \<and> calls p' = [Life_call ''app1'', UnexposeService_call ''app1'',
              DeleteService_call ''app1'', appRemoved_close 0, Stop_call (AppWorker aw0),
              Errorf_call ''app1'' (ErrorNew ''stop failed'')]
         \<and> getApplicationWorker ''app1'' p' = None"
    by (auto simp: cp)
  from h s1 s2 n c 1 2 3 show ?thesis unfolding q_def by simp
qed

subsection \<open>Names that are tracked or dead, and new names\<close>

text \<open>
  Claim C3. For a name whose \<open>Life\<close> query succeeds: when a worker is registered for
  it, or its life is dead, the body of the loop only made that query and changed nothing
  else (no configuration is fetched, no worker is built, the registry is the same). When
  no worker is registered, the life is not dead, and fetching the configuration and
  starting the worker succeed, one worker is built with a fresh channel and registered
  under the name, and no other name of the registry changes. One pass of the body never
  builds more than one worker. After a pass for a name that was found not dead, the name
  is registered, so a second pass for it whose query succeeds is again only the query.
  And when the life found is dead and the name is registered after the pass, it was
  registered before.
\<close>

theorem tracked_or_dead_is_noop:
  "(LifeGetter (config p) = Some lg \<and> Life lg a (world p) = (Inr l, w1)
      \<and> (getApplicationWorker a p \<noteq> None \<or> l = Dead)
     \<longrightarrow> loop_app rt a p = (Running, p\<lparr>world := w1, calls := calls p @ [Life_call a]\<rparr>))
   \<and> (LifeGetter (config p) = Some lg \<and> ApplicationGetter (config p) = Some ag
      \<and> Life lg a (world p) = (Inr l, w1) \<and> getApplicationWorker a p = None \<and> l \<noteq> Dead
      \<and> ApplicationConfig ag a w1 = (Inr cfg, w2)
      \<and> aw = \<lparr>application = a, appRemoved = chans p,
              jujuManagedUnits = GetBool cfg (caas_JujuManagedUnits rt) False\<rparr>
      \<and> applicationWorker_start rt aw w2 = (None, w3)
     \<longrightarrow> (\<exists>p'. loop_app rt a p = (Running, p')
           \<and> calls p' = calls p @ [Life_call a, ApplicationConfig_call a,
                newApplicationWorker_call a (chans p) (GetBool cfg (caas_JujuManagedUnits rt) False),
                Add_call (AppWorker aw)]
           \<and> getApplicationWorker a p' = Some aw
           \<and> (\<forall>k. k \<noteq> a \<longrightarrow> getApplicationWorker k p' = getApplicationWorker k p)))
   \<and> (loop_app rt a p = (out, p')
     \<longrightarrow> (\<exists>log. calls p' = calls p @ log \<and> length (filter is_construction log) \<le> 1))
   \<and> (LifeGetter (config p) = Some lg \<and> Life lg a (world p) = (Inr l, w1) \<and> l \<noteq> Dead
      \<and> loop_app rt a p = (Running, p') \<and> Life lg a (world p') = (Inr l', w1')
     \<longrightarrow> loop_app rt a p' = (Running, p'\<lparr>world := w1', calls := calls p' @ [Life_call a]\<rparr>))
   \<and> (LifeGetter (config p) = Some lg \<and> Life lg a (world p) = (Inr Dead, w1)
      \<and> loop_app rt a p = (out, p') \<and> getApplicationWorker a p' \<noteq> None
     \<longrightarrow> getApplicationWorker a p \<noteq> None)"
proof (intro conjI impI)
  assume "LifeGetter (config p) = Some lg \<and> Life lg a (world p) = (Inr l, w1)
      \<and> (getApplicationWorker a p \<noteq> None \<or> l = Dead)"
  then show "loop_app rt a p = (Running, p\<lparr>world := w1, calls := calls p @ [Life_call a]\<rparr>)"
    using loop_app_noop [of p lg a l w1 rt] by (simp add: getApplicationWorker_registry)
next
  assume a: "LifeGetter (config p) = Some lg \<and> ApplicationGetter (config p) = Some ag
      \<and> Life lg a (world p) = (Inr l, w1) \<and> getApplicationWorker a p = None \<and> l \<noteq> Dead
      \<and> ApplicationConfig ag a w1 = (Inr cfg, w2)
      \<and> aw = \<lparr>application = a, appRemoved = chans p,
              jujuManagedUnits = GetBool cfg (caas_JujuManagedUnits rt) False\<rparr>
      \<and> applicationWorker_start rt aw w2 = (None, w3)"
  then obtain q where q: "loop_app rt a p = (Running, q)"
     "calls q = calls p @ [Life_call a, ApplicationConfig_call a,
         newApplicationWorker_call a (chans p) (GetBool cfg (caas_JujuManagedUnits rt) False),
         Add_call (AppWorker aw)]"
     "registry q = (registry p)(a \<mapsto> aw)"
    using loop_app_created [of p lg ag a l w1 cfg w2 aw rt w3] by blast
  from q(3) have "getApplicationWorker a q = Some aw"
    "\<forall>k. k \<noteq> a \<longrightarrow> getApplicationWorker k q = getApplicationWorker k p"
    by (simp_all add: getApplicationWorker_registry)
  with q(1,2) show "\<exists>p'. loop_app rt a p = (Running, p')
           \<and> calls p' = calls p @ [Life_call a, ApplicationConfig_call a,
                newApplicationWorker_call a (chans p) (GetBool cfg (caas_JujuManagedUnits rt) False),
                Add_call (AppWorker aw)]
           \<and> getApplicationWorker a p' = Some aw
           \<and> (\<forall>k. k \<noteq> a \<longrightarrow> getApplicationWorker k p' = getApplicationWorker k p)"
    by blast
next
  assume "loop_app rt a p = (out, p')"
  from loop_app_effect [OF this]
  show "\<exists>log. calls p' = calls p @ log \<and> length (filter is_construction log) \<le> 1"
    by blast
next
  assume a: "LifeGetter (config p) = Some lg \<and> Life lg a (world p) = (Inr l, w1) \<and> l \<noteq> Dead
      \<and> loop_app rt a p = (Running, p') \<and> Life lg a (world p') = (Inr l', w1')"
  then have run: "loop_app rt a p = (Running, p')" by simp
  from loop_app_effect [OF run] have cfg': "config p' = config p" by simp
  have "registry p' a \<noteq> None"
  proof (cases "registry p a")
    case (Some w)
    with a loop_app_noop [of p lg a l w1 rt] show ?thesis by auto
  next
    case None
    with a loop_app_create [of p lg a l w1 rt]
    have "loop_create rt a (p\<lparr>world := w1, calls := calls p @ [Life_call a]\<rparr>) = (Running, p')"
      by simp
    from loop_create_effect [OF this] show ?thesis by auto
  qed
  with a cfg' show "loop_app rt a p' = (Running, p'\<lparr>world := w1', calls := calls p' @ [Life_call a]\<rparr>)"
    using loop_app_noop [of p' lg a l' w1' rt] by simp
next
  assume a: "LifeGetter (config p) = Some lg \<and> Life lg a (world p) = (Inr Dead, w1)
      \<and> loop_app rt a p = (out, p') \<and> getApplicationWorker a p' \<noteq> None"
  with loop_app_noop [of p lg a Dead w1 rt]
  have "p' = p\<lparr>world := w1, calls := calls p @ [Life_call a]\<rparr>" by simp
  with a show "getApplicationWorker a p \<noteq> None" by (simp add: getApplicationWorker_registry)
qed

theorem tracked_or_dead_is_noop_witness:
  "getApplicationWorker ''app1'' (p_tracked 0) \<noteq> None
   \<and> loop_app rt0 ''app1'' (p_tracked 0)
       = (Running, (p_tracked 0)\<lparr>world := 1, calls := calls (p_tracked 0) @ [Life_call ''app1'']\<rparr>)
   \<and> getApplicationWorker ''app1'' (p_dead 0) = None
   \<and> loop_app rt0 ''app1'' (p_dead 0)
       = (Running, (p_dead 0)\<lparr>world := 1, calls := calls (p_dead 0) @ [Life_call ''app1'']\<rparr>)
   \<and> getApplicationWorker ''app1'' (p_alive 0) = None
   \<and> (\<exists>p'. loop_app rt0 ''app1'' (p_alive 0) = (Running, p')
         \<and> calls p' = calls (p_alive 0) @ [Life_call ''app1'', ApplicationConfig_call ''app1'',
              newApplicationWorker_call ''app1'' 0 False, Add_call (AppWorker aw0)]
         \<and> getApplicationWorker ''app1'' p' = Some aw0)
   \<and> (\<exists>log. calls (snd (loop_app rt0 ''app1'' (p_alive 0))) = calls (p_alive 0) @ log
         \<and> length (filter is_construction log) \<le> 1)
   \<and> loop_app rt0 ''app1'' (snd (loop_app rt0 ''app1'' (p_alive 0)))
       = (Running, (snd (loop_app rt0 ''app1'' (p_alive 0)))\<lparr>world := 2,
            calls := calls (snd (loop_app rt0 ''app1'' (p_alive 0))) @ [Life_call ''app1'']\<rparr>)
   \<and> length (filter is_construction (calls (snd (loop_apps rt0 [''app1'', ''app1''] (p_alive 0))))) = 1
   \<and> getApplicationWorker ''app1'' ((p_dead 0)\<lparr>appWorkers := Some [''app1'' \<mapsto> aw0]\<rparr>) \<noteq> None"
proof -
  let ?lgA = "lg0\<lparr>Life := (\<lambda>a w. (Inr Alive, Suc w))\<rparr>"
  let ?lgD = "lg0\<lparr>Life := (\<lambda>a w. (Inr Dead, Suc w))\<rparr>"
  define q where "q = snd (loop_app rt0 ''app1'' (p_alive 0))"
  have t: "LifeGetter (config (p_tracked 0)) = Some lg0"
    "Life lg0 ''app1'' (world (p_tracked 0)) = (Inr Alive, 1)"
    "getApplicationWorker ''app1'' (p_tracked 0) \<noteq> None"
    by (simp_all add: run_defs)
  have d: "LifeGetter (config (p_dead 0)) = Some ?lgD"
    "Life ?lgD ''app1'' (world (p_dead 0)) = (Inr Dead, 1)"
    "getApplicationWorker ''app1'' (p_dead 0) = None"
    by (simp_all add: run_defs)
  have a: "LifeGetter (config (p_alive 0)) = Some ?lgA"
    "ApplicationGetter (config (p_alive 0)) = Some ag0"
    "Life ?lgA ''app1'' (world (p_alive 0)) = (Inr Alive, 1)"
    "getApplicationWorker ''app1'' (p_alive 0) = None"
    "ApplicationConfig ag0 ''app1'' 1 = (Inr Map.empty, 1)"
    "aw0 = \<lparr>application = ''app1'', appRemoved = chans (p_alive 0),
              jujuManagedUnits = GetBool Map.empty (caas_JujuManagedUnits rt0) False\<rparr>"
    "applicationWorker_start rt0 aw0 1 = (None, 1)"
    by (simp_all add: run_defs)
  have qrun: "loop_app rt0 ''app1'' (p_alive 0) = (Running, q)"
    unfolding q_def by (simp add: run_defs)
  have qlife: "Life ?lgA ''app1'' (world q) = (Inr Alive, 2)"
    unfolding q_def by (simp add: run_defs)
  have two: "length (filter is_construction (calls (snd (loop_apps rt0 [''app1'', ''app1''] (p_alive 0))))) = 1"
    by (simp add: run_defs)
  have dd: "LifeGetter (config ((p_dead 0)\<lparr>appWorkers := Some [''app1'' \<mapsto> aw0]\<rparr>)) = Some ?lgD"
    "Life ?lgD ''app1'' (world ((p_dead 0)\<lparr>appWorkers := Some [''app1'' \<mapsto> aw0]\<rparr>)) = (Inr Dead, 1)"
    "loop_app rt0 ''app1'' ((p_dead 0)\<lparr>appWorkers := Some [''app1'' \<mapsto> aw0]\<rparr>)
       = (Running, (p_dead 0)\<lparr>appWorkers := Some [''app1'' \<mapsto> aw0], world := 1,
            calls := [Life_call ''app1'']\<rparr>)"
    "getApplicationWorker ''app1'' ((p_dead 0)\<lparr>appWorkers := Some [''app1'' \<mapsto> aw0], world := 1,
            calls := [Life_call ''app1'']\<rparr>) \<noteq> None"
    by (simp_all add: run_defs)
  have ch: "chans (p_alive 0) = 0" "GetBool Map.empty (caas_JujuManagedUnits rt0) False = False"
    by (simp_all add: run_defs)
  note T = tracked_or_dead_is_noop
  from T [where p = "p_tracked 0" and lg = lg0 and a = "''app1''" and l = Alive and ?w1.0 = 1
      and rt = rt0] t
  have 1: "loop_app rt0 ''app1'' (p_tracked 0)
       = (Running, (p_tracked 0)\<lparr>world := 1, calls := calls (p_tracked 0) @ [Life_call ''app1'']\<rparr>)"
    by simp
  from T [where p = "p_dead 0" and lg = ?lgD and a = "''app1''" and l = Dead and ?w1.0 = 1
      and rt = rt0] d
  have 2: "loop_app rt0 ''app1'' (p_dead 0)
       = (Running, (p_dead 0)\<lparr>world := 1, calls := calls (p_dead 0) @ [Life_call ''app1'']\<rparr>)"
    by simp
  from T [where p = "p_alive 0" and lg = ?lgA and a = "''app1''" and l = Alive and ?w1.0 = 1
      and rt = rt0 and ag = ag0 and cfg = Map.empty and ?w2.0 = 1 and aw = aw0 and ?w3.0 = 1
      and out = Running and p' = q and l' = Alive and ?w1' = 2] a qrun qlife
  have 3: "\<exists>p'. loop_app rt0 ''app1'' (p_alive 0) = (Running, p')
         \<and> calls p' = calls (p_alive 0) @ [Life_call ''app1'', ApplicationConfig_call ''app1'',
              newApplicationWorker_call ''app1'' 0 False, Add_call (AppWorker aw0)]
         \<and> getApplicationWorker ''app1'' p' = Some aw0"
    and 4: "\<exists>log. calls q = calls (p_alive 0) @ log \<and> length (filter is_construction log) \<le> 1"
    and 5: "loop_app rt0 ''app1'' q = (Running, q\<lparr>world := 2, calls := calls q @ [Life_call ''app1'']\<rparr>)"
    by (simp_all add: ch)
  from T [where p = "(p_dead 0)\<lparr>appWorkers := Some [''app1'' \<mapsto> aw0]\<rparr>" and lg = ?lgD
      and a = "''app1''" and ?w1.0 = 1 and rt = rt0 and out = Running
      and p' = "(p_dead 0)\<lparr>appWorkers := Some [''app1'' \<mapsto> aw0], world := 1,
            calls := [Life_call ''app1'']\<rparr>"] dd
  have 6: "getApplicationWorker ''app1'' ((p_dead 0)\<lparr>appWorkers := Some [''app1'' \<mapsto> aw0]\<rparr>) \<noteq> None"
    by simp
  from t(3) d(3) a(4) 1 2 3 4 5 two 6 show ?thesis unfolding q_def by simp
qed

subsection \<open>A creation that fails\<close>

text \<open>
  Claim C10. For a name that is not registered and not dead: when fetching the
  configuration fails, the loop returns that error, traced, and the registry is the one
  it was (no worker was built); when starting the worker fails, the loop returns that
  error, traced, and the registry is the one it was; only when both succeed is the
  worker found in the registry.
\<close>

theorem creation_is_atomic:
  assumes lg: "LifeGetter (config p) = Some lg"
    and ag: "ApplicationGetter (config p) = Some ag"
    and life: "Life lg a (world p) = (Inr l, w1)"
    and untracked: "getApplicationWorker a p = None"
    and live: "l \<noteq> Dead"
    and run: "loop_app rt a p = (out, p')"
  shows "(case ApplicationConfig ag a w1 of
            (Inl e, w2) \<Rightarrow>
              out = Return (Trace e) \<and> appWorkers p' = appWorkers p
              \<and> calls p' = calls p @ [Life_call a, ApplicationConfig_call a]
          | (Inr cfg, w2) \<Rightarrow>
             (case applicationWorker_start rt
                     \<lparr>application = a, appRemoved = chans p,
                      jujuManagedUnits = GetBool cfg (caas_JujuManagedUnits rt) False\<rparr> w2 of
                (Some e, w3) \<Rightarrow>
                  out = Return (Trace e) \<and> appWorkers p' = appWorkers p
                  \<and> calls p' = calls p @ [Life_call a, ApplicationConfig_call a,
                       newApplicationWorker_call a (chans p)
                         (GetBool cfg (caas_JujuManagedUnits rt) False)]
              | (None, w3) \<Rightarrow>
                  out = Running
                  \<and> getApplicationWorker a p' =
                      Some \<lparr>application = a, appRemoved = chans p,
                            jujuManagedUnits = GetBool cfg (caas_JujuManagedUnits rt) False\<rparr>))"
proof -
  define p1 where "p1 = p\<lparr>world := w1, calls := calls p @ [Life_call a]\<rparr>"
  have p1: "config p1 = config p" "world p1 = w1" "calls p1 = calls p @ [Life_call a]"
    "appWorkers p1 = appWorkers p" "chans p1 = chans p"
    by (simp_all add: p1_def)
  from untracked have reg: "registry p a = None" by (simp add: getApplicationWorker_registry)
  from loop_app_create [OF lg life reg live] run
  have c: "loop_create rt a p1 = (out, p')" by (simp add: p1_def)
  from ag p1 have ag1: "ApplicationGetter (config p1) = Some ag" by simp
  obtain r w2 where cf: "ApplicationConfig ag a w1 = (r, w2)" by force
  show ?thesis
  proof (cases r)
    case (Inl e)
    with cf p1 have "ApplicationConfig ag a (world p1) = (Inl e, w2)" by simp
    from loop_create_config_fails [OF ag1 this, of rt] c
    have "out = Return (Trace e)" "p' = p1\<lparr>world := w2, calls := calls p1 @ [ApplicationConfig_call a]\<rparr>"
      by simp_all
    with p1 cf Inl show ?thesis by simp
  next
    case (Inr cfg)
    define aw where "aw = \<lparr>application = a, appRemoved = chans p,
        jujuManagedUnits = GetBool cfg (caas_JujuManagedUnits rt) False\<rparr>"
    from cf Inr p1 have cf1: "ApplicationConfig ag a (world p1) = (Inr cfg, w2)" by simp
    obtain e w3 where st: "applicationWorker_start rt aw w2 = (e, w3)" by force
    show ?thesis
    proof (cases e)
      case (Some err)
      with st p1 have "applicationWorker_start rt
           \<lparr>application = a, appRemoved = chans p1,
            jujuManagedUnits = GetBool cfg (caas_JujuManagedUnits rt) False\<rparr> w2 = (Some err, w3)"
        by (simp add: aw_def)
      from loop_create_start_fails [OF ag1 cf1 this] c
      have "out = Return (Trace err)" "p' = p1\<lparr>world := w3, calls := calls p1 @ [ApplicationConfig_call a,
         newApplicationWorker_call a (chans p1) (GetBool cfg (caas_JujuManagedUnits rt) False)],
         chans := Suc (chans p1)\<rparr>"
        by simp_all
      with p1 cf Inr st Some show ?thesis by (simp add: aw_def)
    next
      case None
      obtain e4 w4 where ad: "catacomb_Add rt (AppWorker aw) w3 = (e4, w4)" by force
      have aw1: "aw = \<lparr>application = a, appRemoved = chans p1,
            jujuManagedUnits = GetBool cfg (caas_JujuManagedUnits rt) False\<rparr>"
        using p1 by (simp add: aw_def)
      from st None have "applicationWorker_start rt aw w2 = (None, w3)" by simp
      from loop_create_ok [OF ag1 cf1 aw1 this ad] c
      have "out = Running" "registry p' = (registry p1)(a \<mapsto> aw)" by auto
      then have "out = Running" "getApplicationWorker a p' = Some aw"
        by (simp_all add: getApplicationWorker_registry)
      with cf Inr st None show ?thesis by (simp add: aw_def)
    qed
  qed
qed

theorem creation_is_atomic_witness:
  "LifeGetter (config (p_config_fails 0)) = Some lg0
   \<and> Life lg0 ''app1'' (world (p_config_fails 0)) = (Inr Alive, 1)
   \<and> getApplicationWorker ''app1'' (p_config_fails 0) = None
   \<and> fst (loop_app rt0 ''app1'' (p_config_fails 0)) = Return (Traced (ErrorNew ''no config''))
   \<and> appWorkers (snd (loop_app rt0 ''app1'' (p_config_fails 0))) = appWorkers (p_config_fails 0)
   \<and> appWorkers (p_config_fails 0) = None
   \<and> LifeGetter (config (p0 0)) = Some lg0 \<and> ApplicationGetter (config (p0 0)) = Some ag0
   \<and> Life lg0 ''app1'' (world (p0 0)) = (Inr Alive, 1)
   \<and> getApplicationWorker ''app1'' (p0 0) = None
   \<and> fst (loop_app rt_start_fails ''app1'' (p0 0)) = Return (Traced (ErrorNew ''no start''))
   \<and> appWorkers (snd (loop_app rt_start_fails ''app1'' (p0 0))) = appWorkers (p0 0)
   \<and> fst (loop_app rt0 ''app1'' (p0 0)) = Running
   \<and> getApplicationWorker ''app1'' (snd (loop_app rt0 ''app1'' (p0 0))) = Some aw0"
proof -
  let ?agF = "ag0\<lparr>ApplicationConfig := (\<lambda>a w. (Inl (ErrorNew ''no config''), w))\<rparr>"
  have r: "\<And>rt p. loop_app rt ''app1'' p
      = (fst (loop_app rt ''app1'' p), snd (loop_app rt ''app1'' p))" by simp
  have al: "Alive \<noteq> Dead" by simp
  have f: "LifeGetter (config (p_config_fails 0)) = Some lg0"
    "ApplicationGetter (config (p_config_fails 0)) = Some ?agF"
    "Life lg0 ''app1'' (world (p_config_fails 0)) = (Inr Alive, 1)"
    "getApplicationWorker ''app1'' (p_config_fails 0) = None"
    and fn: "appWorkers (p_config_fails 0) = None"
    by (simp_all add: run_defs)
  have h: "LifeGetter (config (p0 0)) = Some lg0" "ApplicationGetter (config (p0 0)) = Some ag0"
    "Life lg0 ''app1'' (world (p0 0)) = (Inr Alive, 1)"
    "getApplicationWorker ''app1'' (p0 0) = None"
    by (simp_all add: run_defs)
  have v: "ApplicationConfig ?agF ''app1'' 1 = (Inl (ErrorNew ''no config''), 1)"
    "ApplicationConfig ag0 ''app1'' 1 = (Inr Map.empty, 1)"
    "chans (p0 0) = 0" "GetBool Map.empty (caas_JujuManagedUnits rt0) False = False"
    "GetBool Map.empty (caas_JujuManagedUnits rt_start_fails) False = False"
    "applicationWorker_start rt_start_fails aw0 1 = (Some (ErrorNew ''no start''), 1)"
    "applicationWorker_start rt0 aw0 1 = (None, 1)"
    "aw0 = \<lparr>application = ''app1'', appRemoved = 0, jujuManagedUnits = False\<rparr>"
    by (simp_all add: run_defs)
  from creation_is_atomic [OF f al r [of rt0]] v(1)
  have 1: "fst (loop_app rt0 ''app1'' (p_config_fails 0)) = Return (Traced (ErrorNew ''no config''))"
    "appWorkers (snd (loop_app rt0 ''app1'' (p_config_fails 0))) = appWorkers (p_config_fails 0)"
    by (simp_all add: Trace_def)
  from creation_is_atomic [OF h al r [of rt_start_fails]] v(2,3,5,6) v(8) [symmetric]
  have 2: "fst (loop_app rt_start_fails ''app1'' (p0 0)) = Return (Traced (ErrorNew ''no start''))"
    "appWorkers (snd (loop_app rt_start_fails ''app1'' (p0 0))) = appWorkers (p0 0)"
    by (simp_all add: Trace_def)
  from creation_is_atomic [OF h al r [of rt0]] v(2,3,4,7) v(8) [symmetric]
  have 3: "fst (loop_app rt0 ''app1'' (p0 0)) = Running"
    "getApplicationWorker ''app1'' (snd (loop_app rt0 ''app1'' (p0 0))) = Some aw0"
    by simp_all
  from f(1,3,4) fn h 1 2 3 show ?thesis by simp
qed

subsection \<open>Adding a new worker to the catacomb\<close>

text \<open>
  Claim C6. The claim says that a failure to attach a new worker is not silently
  ignored. Here \<open>catacomb.Add\<close> fails for the worker of app1: the body of the loop
  goes on as if nothing had happened, with the worker registered, nothing returned and
  nothing logged. The same failure for the watcher, at the start of the loop, is
  returned traced.
\<close>

theorem add_failure_is_dropped:
  "catacomb_Add rt_add_fails (AppWorker aw0) 1 = (Some ErrDying, 1)
   \<and> loop_app rt_add_fails ''app1'' (p0 0)
       = (Running, (p0 0)\<lparr>appWorkers := Some [''app1'' \<mapsto> aw0], world := 1,
            calls := [Life_call ''app1'', ApplicationConfig_call ''app1'',
              newApplicationWorker_call ''app1'' 0 False, Add_call (AppWorker aw0)],
            chans := 1\<rparr>)
   \<and> catacomb_Add (rt0\<lparr>catacomb_Add := (\<lambda>wk w. (Some ErrDying, w))\<rparr>)
         (WatcherWorker (StringsWatcher 0)) 0 = (Some ErrDying, 0)
   \<and> loop (rt0\<lparr>catacomb_Add := (\<lambda>wk w. (Some ErrDying, w))\<rparr>) [] (p0 0)
       = (Return (Traced ErrDying), (p0 0)\<lparr>calls := [WatchApplications_call,
            Add_call (WatcherWorker (StringsWatcher 0))]\<rparr>)"
  by (simp add: run_defs)

theorem add_failure_is_dropped_witness:
  "fst (loop_app rt_add_fails ''app1'' (p0 0)) = Running
   \<and> getApplicationWorker ''app1'' (snd (loop_app rt_add_fails ''app1'' (p0 0))) = Some aw0
   \<and> last (calls (snd (loop_app rt_add_fails ''app1'' (p0 0)))) = Add_call (AppWorker aw0)
   \<and> fst (loop (rt0\<lparr>catacomb_Add := (\<lambda>wk w. (Some ErrDying, w))\<rparr>) [] (p0 0))
       = Return (Traced ErrDying)"
  using add_failure_is_dropped
  by (simp add: getApplicationWorker_def map_len_zero_def map_index_def)

subsection \<open>Batches in their order\<close>

text \<open>
  Claim C7. The calls of every run of the select are exactly: the receive of the first
  batch; for each name of that batch, in the order received, all the calls of handling
  that name, one name after the other; and only then the receive of the next batch, and
  so on. The run stops inside a batch only where the loop returns. In particular the
  receives and the \<open>Life\<close> queries come in the order of the batches and their names,
  all of them while the loop has not returned. The same holds of the loop from its
  start, after its two opening calls.
\<close>

theorem batches_to_completion:
  "calls (snd (loop_select rt evs p)) = calls p @ run_calls rt evs p
   \<and> (loop_select rt evs p = (out, p') \<longrightarrow>
      (\<exists>log. calls p' = calls p @ log
         \<and> prefix (filter is_watched log) (expected evs)
         \<and> (out = Running \<longrightarrow> filter is_watched log = expected evs)))
   \<and> (loop rt evs q = (out', q') \<longrightarrow>
      (\<exists>log. calls q' = calls q @ log
         \<and> prefix (filter is_watched log) (expected evs)
         \<and> (out' = Running \<longrightarrow> filter is_watched log = expected evs)))
   \<and> (ApplicationGetter (config q) = Some ag \<and> WatchApplications ag (world q) = (Inr sw, w1)
        \<and> catacomb_Add rt (WatcherWorker sw) w1 = (None, w2) \<longrightarrow>
      calls (snd (loop rt evs q))
        = calls q @ WatchApplications_call # Add_call (WatcherWorker sw)
            # run_calls rt evs (q\<lparr>world := w2,
                calls := calls q @ [WatchApplications_call, Add_call (WatcherWorker sw)]\<rparr>))"
proof (intro conjI impI)
  show "calls (snd (loop_select rt evs p)) = calls p @ run_calls rt evs p"
    by (rule loop_select_calls)
next
  assume "loop_select rt evs p = (out, p')"
  from loop_select_effect [OF this]
  show "\<exists>log. calls p' = calls p @ log
         \<and> prefix (filter is_watched log) (expected evs)
         \<and> (out = Running \<longrightarrow> filter is_watched log = expected evs)"
    by blast
next
  assume "loop rt evs q = (out', q')"
  from loop_effect [OF this]
  show "\<exists>log. calls q' = calls q @ log
         \<and> prefix (filter is_watched log) (expected evs)
         \<and> (out' = Running \<longrightarrow> filter is_watched log = expected evs)"
    by blast
next
  assume a: "ApplicationGetter (config q) = Some ag \<and> WatchApplications ag (world q) = (Inr sw, w1)
        \<and> catacomb_Add rt (WatcherWorker sw) w1 = (None, w2)"
  define q2 where "q2 = q\<lparr>world := w2,
      calls := calls q @ [WatchApplications_call, Add_call (WatcherWorker sw)]\<rparr>"
  from a have "loop rt evs q = loop_select rt evs q2"
    unfolding q2_def using loop_started [of q ag sw w1 rt w2 evs] by simp
  then have "calls (snd (loop rt evs q)) = calls q2 @ run_calls rt evs q2"
    by (simp only: loop_select_calls)
  then show "calls (snd (loop rt evs q))
        = calls q @ WatchApplications_call # Add_call (WatcherWorker sw)
            # run_calls rt evs (q\<lparr>world := w2,
                calls := calls q @ [WatchApplications_call, Add_call (WatcherWorker sw)]\<rparr>)"
    by (simp add: q2_def)
qed

theorem batches_to_completion_witness:
  "fst (loop_select rt0 [Changes [''app1'', ''app2''], Changes [''app1'']] (p0 0)) = Running
   \<and> calls (snd (loop_select rt0 [Changes [''app1'', ''app2''], Changes [''app1'']] (p0 0)))
       = [Changes_recv [''app1'', ''app2''],
          Life_call ''app1'', ApplicationConfig_call ''app1'',
          newApplicationWorker_call ''app1'' 0 False, Add_call (AppWorker aw0),
          Life_call ''app2'', UnexposeService_call ''app2'', DeleteService_call ''app2'',
          Changes_recv [''app1''],
          Life_call ''app1'', UnexposeService_call ''app1'', DeleteService_call ''app1'',
          appRemoved_send 0, Stop_call (AppWorker aw0)]
   \<and> fst (loop_select rt0 [Changes [''app1'', ''app2''], Changes [''app3'']] (p_unexpose_fails 1))
       = Return (Traced (ErrorNew ''unexpose failed''))
   \<and> calls (snd (loop_select rt0 [Changes [''app1'', ''app2''], Changes [''app3'']]
         (p_unexpose_fails 1)))
       = [Changes_recv [''app1'', ''app2''], Life_call ''app1'', UnexposeService_call ''app1'']"
proof -
  let ?e1 = "[Changes [''app1'', ''app2''], Changes [''app1'']]"
  let ?e2 = "[Changes [''app1'', ''app2''], Changes [''app3'']]"
  have c: "calls (p0 0) = []" "calls (p_unexpose_fails 1) = []" by (simp_all add: run_defs)
  have fx: "fst (loop_select rt0 ?e1 (p0 0)) = Running" by (simp add: run_defs)
  have fy: "fst (loop_select rt0 ?e2 (p_unexpose_fails 1)) = Return (Traced (ErrorNew ''unexpose failed''))"
    by (simp add: run_defs)
  have r1: "run_calls rt0 ?e1 (p0 0)
       = [Changes_recv [''app1'', ''app2''],
          Life_call ''app1'', ApplicationConfig_call ''app1'',
          newApplicationWorker_call ''app1'' 0 False, Add_call (AppWorker aw0),
          Life_call ''app2'', UnexposeService_call ''app2'', DeleteService_call ''app2'',
          Changes_recv [''app1''],
          Life_call ''app1'', UnexposeService_call ''app1'', DeleteService_call ''app1'',
          appRemoved_send 0, Stop_call (AppWorker aw0)]"
    by (simp add: run_defs calls_defs)
  have r2: "run_calls rt0 ?e2 (p_unexpose_fails 1)
       = [Changes_recv [''app1'', ''app2''], Life_call ''app1'', UnexposeService_call ''app1'']"
    by (simp add: run_defs calls_defs)
  from batches_to_completion [of rt0 ?e1 "p0 0", THEN conjunct1]
  have 1: "calls (snd (loop_select rt0 ?e1 (p0 0)))
       = [Changes_recv [''app1'', ''app2''],
          Life_call ''app1'', ApplicationConfig_call ''app1'',
          newApplicationWorker_call ''app1'' 0 False, Add_call (AppWorker aw0),
          Life_call ''app2'', UnexposeService_call ''app2'', DeleteService_call ''app2'',
          Changes_recv [''app1''],
          Life_call ''app1'', UnexposeService_call ''app1'', DeleteService_call ''app1'',
          appRemoved_send 0, Stop_call (AppWorker aw0)]"
    by (simp only: c r1 append_Nil)
  from batches_to_completion [of rt0 ?e2 "p_unexpose_fails 1", THEN conjunct1]
  have 2: "calls (snd (loop_select rt0 ?e2 (p_unexpose_fails 1)))
       = [Changes_recv [''app1'', ''app2''], Life_call ''app1'', UnexposeService_call ''app1'']"
    by (simp only: c r2 append_Nil)
  from fx fy 1 2 show ?thesis by (intro conjI)
qed

end
